theory Spec2Isabelle
  imports Complex_Main
begin

section \<open>Values and numpy primitives\<close>

text \<open>
  The embedding follows \<^verbatim>\<open>scipy/optimize/_linprog.py\<close> under Python 2 semantics with
  true division. A float64 cell is idealised as an exact rational; a bound may also be
  one of the two infinities (\<open>ext\<close>). A tableau is the list of its rows, all of one
  length; the empty list stands for the array of shape (0, 0). Exceptions are values of
  \<open>py_error\<close>, returned on the left of a sum. The arrays of a problem are taken to be
  of dtype float64: numpy keeps arrays built from Python ints as int64, and the stores
  of lines 745, 746 and 755 into such arrays truncate or wrap, which the embedding does
  not follow.
\<close>

datatype py_error = IndexError | ValueError | TypeError | KeyError

datatype ext = MInf | Fin rat | PInf

text \<open>Comparison and classification of float64 values that are not NaN.\<close>

fun ext_less :: "ext \<Rightarrow> ext \<Rightarrow> bool" where
  "ext_less MInf MInf = False"
| "ext_less MInf _ = True"
| "ext_less (Fin a) (Fin b) = (a < b)"
| "ext_less (Fin a) PInf = True"
| "ext_less (Fin a) MInf = False"
| "ext_less PInf _ = False"

fun isinf :: "ext \<Rightarrow> bool" where
  "isinf (Fin a) = False"
| "isinf _ = True"

fun isfinite :: "ext \<Rightarrow> bool" where
  "isfinite (Fin a) = True"
| "isfinite _ = False"

text \<open>\<^verbatim>\<open>'{:d}'.format(i)\<close> for a non-negative index.\<close>

fun str_nat :: "nat \<Rightarrow> string" where
  "str_nat i = (if i < 10 then [char_of (48 + i)]
                else str_nat (i div 10) @ [char_of (48 + i mod 10)])"

declare str_nat.simps [simp del]

text \<open>\<^verbatim>\<open>np.argmin\<close>: the first index of the least entry; ValueError on an empty array.\<close>

definition argmin :: "rat list \<Rightarrow> py_error + nat" where
  "argmin v = (if v = [] then Inl ValueError
               else Inr (length (takeWhile (\<lambda>a. a \<noteq> min_list v) v)))"

text \<open>
  \<^verbatim>\<open>np.argsort\<close>: the indices in ascending order of their entries. Equal entries are
  listed in index order, which is what numpy's sort does on the short arrays of a
  tableau column.
\<close>

definition argsort :: "rat list \<Rightarrow> nat list" where
  "argsort v = sort_key (\<lambda>i. v ! i) [0..<length v]"

definition column :: "rat list list \<Rightarrow> nat \<Rightarrow> rat list" where
  "column T col = map (\<lambda>r. r ! col) T"

definition t_cols :: "rat list list \<Rightarrow> nat" where
  "t_cols T = (case T of [] \<Rightarrow> 0 | r # _ \<Rightarrow> length r)"

section \<open>Reading the basis: \<^verbatim>\<open>_get_basics\<close>\<close>

text \<open>
  The column test of the source counts the ones and the zeros of the whole column,
  objective rows included: \<^verbatim>\<open>ones_in_col.sum() == 1 and zeros_in_col.sum() == n-1\<close>.
\<close>

definition is_basic_col :: "rat list list \<Rightarrow> nat \<Rightarrow> bool" where
  "is_basic_col T col =
     (length (filter (\<lambda>a. a = 1) (column T col)) = 1 \<and>
      int (length (filter (\<lambda>a. a = 0) (column T col))) = int (length T) - 1)"

text \<open>\<^verbatim>\<open>np.nonzero(v)[0][0]\<close>: the first index of a nonzero entry, IndexError if there is none.\<close>

fun first_nonzero :: "rat list \<Rightarrow> py_error + nat" where
  "first_nonzero [] = Inl IndexError"
| "first_nonzero (a # v) =
     (if a \<noteq> 0 then Inr 0
      else case first_nonzero v of Inl e \<Rightarrow> Inl e | Inr k \<Rightarrow> Inr (Suc k))"

text \<open>The loop \<^verbatim>\<open>for col in range(m-1)\<close>, returning the pairs (index, value) in order.\<close>

fun get_basics_cols :: "rat list list \<Rightarrow> nat list \<Rightarrow> py_error + (nat \<times> rat) list" where
  "get_basics_cols T [] = Inr []"
| "get_basics_cols T (col # cols) =
     (if is_basic_col T col then
        (case first_nonzero (butlast (column T col)) of
           Inl e \<Rightarrow> Inl e
         | Inr nonzero_row \<Rightarrow>
            (case get_basics_cols T cols of
               Inl e \<Rightarrow> Inl e
             | Inr rest \<Rightarrow> Inr ((col, last (T ! nonzero_row)) # rest)))
      else get_basics_cols T cols)"

definition get_basics :: "rat list list \<Rightarrow> py_error + (nat \<times> rat) list" where
  "get_basics T = get_basics_cols T [0..<t_cols T - 1]"

text \<open>
  The solution vector read from the basis: \<^verbatim>\<open>x.fill(0.0)\<close>, then the basic values of
  the columns below \<open>n\<close>, stopping at the first basic column that is not structural.
\<close>

fun fill_x :: "nat \<Rightarrow> (nat \<times> rat) list \<Rightarrow> rat list \<Rightarrow> rat list" where
  "fill_x n [] x = x"
| "fill_x n ((col, v) # rest) x = (if col < n then fill_x n rest (x[col := v]) else x)"

definition basic_solution :: "nat \<Rightarrow> (nat \<times> rat) list \<Rightarrow> rat list" where
  "basic_solution n basics = fill_x n basics (replicate n 0)"

section \<open>The simplex engine: \<^verbatim>\<open>lpsimplex\<close>\<close>

text \<open>
  The observer is modelled by what it is given: when a callback is supplied, every
  invocation appends its arguments to the list of calls, in order.
\<close>

record payload =
  p_xk :: "rat list"
  p_tableau :: "rat list list"
  p_iter :: int
  p_vars :: "string list"
  p_pivot :: "nat \<times> nat"
  p_phase :: int
  p_basics :: "(nat \<times> rat) list"
  p_complete :: bool

text \<open>The variables the while loop updates.\<close>

record lp_state =
  s_tableau :: "rat list list"
  s_nit :: int
  s_status :: "int option"
  s_cycle :: nat
  s_calls :: "payload list"

text \<open>What \<^verbatim>\<open>lpsimplex\<close> returns, with the tableau it has mutated in place and the
  observer calls it has made.\<close>

record lp_result =
  o_x :: "rat list"
  o_nit :: int
  o_status :: int
  o_message :: string
  o_tableau :: "rat list list"
  o_calls :: "payload list"

text \<open>
  The column headers: \<^verbatim>\<open>index_to_varname\<close> has the keys below
  \<open>n + n_slack + n_artificial\<close>, and the comprehension over \<^verbatim>\<open>range(t_cols - 1)\<close>
  raises KeyError on any other index.
\<close>

definition index_to_varname :: "nat \<Rightarrow> nat \<Rightarrow> nat \<Rightarrow> nat \<Rightarrow> py_error + string" where
  "index_to_varname n n_slack n_artificial i =
     (if n + n_slack \<le> i \<and> i < n + n_slack + n_artificial
        then Inr (''a['' @ str_nat (i - (n + n_slack)) @ '']'')
      else if n \<le> i \<and> i < n + n_slack then Inr (''s['' @ str_nat (i - n) @ '']'')
      else if i < n then Inr (''x['' @ str_nat i @ '']'')
      else Inl KeyError)"

fun varnames :: "nat \<Rightarrow> nat \<Rightarrow> nat \<Rightarrow> nat list \<Rightarrow> py_error + string list" where
  "varnames n n_slack n_artificial [] = Inr []"
| "varnames n n_slack n_artificial (i # is) =
     (case index_to_varname n n_slack n_artificial i of
        Inl e \<Rightarrow> Inl e
      | Inr name \<Rightarrow>
         (case varnames n n_slack n_artificial is of
            Inl e \<Rightarrow> Inl e
          | Inr names \<Rightarrow> Inr (name # names)))"

definition column_headers :: "nat \<Rightarrow> nat \<Rightarrow> nat \<Rightarrow> rat list list \<Rightarrow> py_error + string list" where
  "column_headers n n_slack n_artificial T =
     (case varnames n n_slack n_artificial [0..<t_cols T - 1] of
        Inl e \<Rightarrow> Inl e
      | Inr names \<Rightarrow> Inr (names @ [''RHS'']))"

text \<open>
  The ratio test, lines 298 to 319: the rows above the objective rows in the order of
  their pivot-column entry, those with a positive entry kept, ordered again by
  RHS / entry. The result is the column of row indices \<^verbatim>\<open>row_quotient[:, :1]\<close>.
\<close>

definition ratio_rows :: "rat list list \<Rightarrow> int \<Rightarrow> nat \<Rightarrow> nat list" where
  "ratio_rows T phase pivcol =
     (let above = (if phase = 1 then take (length T - 2) T else take (length T - 1) T);
          pivcol_sortorder = argsort (column above pivcol);
          row_quotient = map (\<lambda>i. (i, T ! i ! pivcol, last (T ! i))) pivcol_sortorder;
          row_quotient = filter (\<lambda>(i, a, b). a > 0) row_quotient;
          row_quotient = map (\<lambda>(i, a, b). (i, b / a, b)) row_quotient
      in map (\<lambda>k. fst (row_quotient ! k)) (argsort (map (\<lambda>(i, q, b). q) row_quotient)))"

text \<open>The Gauss-Jordan step, lines 355 to 360.\<close>

definition pivot :: "rat list list \<Rightarrow> nat \<Rightarrow> nat \<Rightarrow> rat list list" where
  "pivot T pivrow pivcol =
     (let pivval = T ! pivrow ! pivcol;
          prow = map (\<lambda>a. a / pivval) (T ! pivrow)
      in map (\<lambda>irow. if irow = pivrow then prow
                      else map2 (\<lambda>a p. a - p * (T ! irow ! pivcol)) (T ! irow) prow)
             [0..<length T])"

text \<open>The observer call of lines 336 to 352; \<open>status\<close> is the status after line 334.\<close>

definition callback_step ::
  "nat \<Rightarrow> int \<Rightarrow> bool \<Rightarrow> string list \<Rightarrow> rat list list \<Rightarrow> int \<Rightarrow> nat \<times> nat \<Rightarrow> int option
     \<Rightarrow> payload list \<Rightarrow> py_error + payload list" where
  "callback_step n phase callback headers T nit piv status calls =
     (if callback then
        (case get_basics T of
           Inl e \<Rightarrow> Inl e
         | Inr basic_vars \<Rightarrow>
             Inr (calls @
               [\<lparr>p_xk = basic_solution n basic_vars, p_tableau = T, p_iter = nit,
                 p_vars = headers, p_pivot = piv, p_phase = phase, p_basics = basic_vars,
                 p_complete = (status \<noteq> None \<and> phase = 2)\<rparr>]))
      else Inr calls)"

text \<open>
  One pass through the loop body. The flag of the result says whether the body left the
  loop by \<^verbatim>\<open>break\<close> (the IndexError handler of line 321, which sets status 3).
\<close>

definition lp_body ::
  "nat \<Rightarrow> int \<Rightarrow> bool \<Rightarrow> string list \<Rightarrow> rat \<Rightarrow> rat list list \<Rightarrow> lp_state
     \<Rightarrow> py_error + (bool \<times> lp_state)" where
  "lp_body n phase callback headers tol tableau0 s =
     (let T = s_tableau s;
          cycle = (if s_nit s > 2 ^ n \<and> T = tableau0 then s_cycle s + 1 else s_cycle s)
      in if T = [] then Inl IndexError
         else case argmin (butlast (last T)) of
           Inl e \<Rightarrow> Inl e
         | Inr pivcol \<Rightarrow>
            (let row_quotient = ratio_rows T phase pivcol
             in if length row_quotient \<le> cycle
                then Inr (True, s\<lparr>s_status := Some 3, s_cycle := cycle\<rparr>)
                else
                  (let pivrow = row_quotient ! cycle;
                       cycle = (if cycle > 0 then 0 else cycle);
                       status = (if \<forall>a \<in> set (butlast (last T)). a \<ge> - tol
                                 then Some 0 else s_status s)
                   in case callback_step n phase callback headers T (s_nit s)
                             (pivrow, pivcol) status (s_calls s) of
                        Inl e \<Rightarrow> Inl e
                      | Inr calls \<Rightarrow>
                          if status = None
                          then Inr (False, \<lparr>s_tableau = pivot T pivrow pivcol,
                                            s_nit = s_nit s + 1, s_status = status,
                                            s_cycle = cycle, s_calls = calls\<rparr>)
                          else Inr (False, \<lparr>s_tableau = T, s_nit = s_nit s,
                                            s_status = status, s_cycle = cycle,
                                            s_calls = calls\<rparr>))))"

text \<open>
  The while loop with its else clause. The result is the final state with the status
  and the message that the loop exit assigns: 3 after the break, otherwise 1 if the
  iteration limit is reached and 0 if not.
\<close>

function lp_loop ::
  "nat \<Rightarrow> int \<Rightarrow> bool \<Rightarrow> string list \<Rightarrow> rat \<Rightarrow> rat list list \<Rightarrow> int \<Rightarrow> lp_state
     \<Rightarrow> py_error + (lp_state \<times> int \<times> string)" where
  "lp_loop n phase callback headers tol tableau0 maxiter s =
     (if s_nit s < maxiter \<and> s_status s = None then
        (case lp_body n phase callback headers tol tableau0 s of
           Inl e \<Rightarrow> Inl e
         | Inr (left_by_break, s') \<Rightarrow>
             if left_by_break
             then Inr (s', 3, ''Optimization failed. The problem appears to be unbounded.'')
             else lp_loop n phase callback headers tol tableau0 maxiter s')
      else if s_nit s \<ge> maxiter then Inr (s, 1, ''Iteration limit reached.'')
      else Inr (s, 0, ''Optimization terminated successfully.''))"
  by pat_completeness auto
termination
proof (relation "measure (\<lambda>(n, phase, callback, headers, tol, tableau0, maxiter, s).
          nat (maxiter - s_nit s) + (if s_status s = None then 1 else 0))")
  show "wf (measure (\<lambda>(n, phase, callback, headers, tol, tableau0, maxiter, s).
          nat (maxiter - s_nit s) + (if s_status s = None then 1 else 0)))"
    by simp
next
  fix n phase callback headers tol tableau0 maxiter s x2 x y
  assume c: "s_nit s < maxiter \<and> s_status s = None"
    and b: "lp_body n phase callback headers tol tableau0 s = Inr x2"
    and xy: "(x, y) = x2" and nb: "\<not> x"
  from b xy nb have "lp_body n phase callback headers tol tableau0 s = Inr (False, y)"
    by auto
  with c have "(s_status y = None \<and> s_nit y = s_nit s + 1) \<or>
        (s_status y \<noteq> None \<and> s_nit y = s_nit s)"
    by (auto simp: lp_body_def Let_def split: if_splits sum.splits)
  with c show "((n, phase, callback, headers, tol, tableau0, maxiter, y),
                (n, phase, callback, headers, tol, tableau0, maxiter, s))
        \<in> measure (\<lambda>(n, phase, callback, headers, tol, tableau0, maxiter, s).
          nat (maxiter - s_nit s) + (if s_status s = None then 1 else 0))"
    by auto
qed

declare lp_loop.simps [simp del]

text \<open>
  \<^verbatim>\<open>lpsimplex\<close>. The phase check of line 259 assigns status -1, and line 272 assigns
  None to the same variable before anything reads it.
\<close>

definition lpsimplex ::
  "rat list list \<Rightarrow> nat \<Rightarrow> nat \<Rightarrow> nat \<Rightarrow> int \<Rightarrow> int \<Rightarrow> bool \<Rightarrow> rat \<Rightarrow> int
     \<Rightarrow> py_error + lp_result" where
  "lpsimplex tableau n n_slack n_artificial maxiter phase callback tol nit0 =
     (let nit = nit0;
          status = (if phase \<noteq> 1 \<and> phase \<noteq> 2 then Some (- 1 :: int) else None);
          tableau0 = tableau;
          status = None;
          cycle = 0
      in case (if callback then column_headers n n_slack n_artificial tableau else Inr []) of
           Inl e \<Rightarrow> Inl e
         | Inr headers \<Rightarrow>
            (case lp_loop n phase callback headers tol tableau0 maxiter
                    \<lparr>s_tableau = tableau, s_nit = nit, s_status = status, s_cycle = cycle,
                      s_calls = []\<rparr> of
               Inl e \<Rightarrow> Inl e
             | Inr (s, final_status, message) \<Rightarrow>
                (case get_basics (s_tableau s) of
                   Inl e \<Rightarrow> Inl e
                 | Inr basics \<Rightarrow>
                     Inr \<lparr>o_x = basic_solution n basics, o_nit = s_nit s,
                          o_status = final_status, o_message = message,
                          o_tableau = s_tableau s, o_calls = s_calls s\<rparr>)))"

section \<open>The solver: \<^verbatim>\<open>_linprog_simplex\<close>\<close>

text \<open>
  A constraint matrix is a 2-D array: its rows and, since an array without rows still
  has a shape, its number of columns. A right-hand side is a 1-D array. An entry of
  \<^verbatim>\<open>bounds\<close> is a sequence whose items are numbers or \<^verbatim>\<open>None\<close>.
\<close>

record array2 =
  ncols :: nat
  rows :: "rat list list"

text \<open>
  The arrays \<^verbatim>\<open>L\<close> and \<^verbatim>\<open>U\<close>. The branch for a single pair builds
  \<^verbatim>\<open>np.asarray(n*bounds[0][0])\<close>, the product of an int and a number: an array of
  dimension 0. Its value is NaN (here \<open>None\<close>) for \<^verbatim>\<open>0 * inf\<close>.
\<close>

datatype bounds_array = Scalar "ext option" | Vector "ext list"

record result =
  r_x :: "rat list"
  r_fun :: rat
  r_nit :: int
  r_status :: int
  r_message :: string
  r_success :: bool

text \<open>The three \<^verbatim>\<open>return\<close> statements of the solver, lines 818, 895 and 931.\<close>

datatype exit_point = Invalid_input | Phase1_failed | Finished

text \<open>The variables of the standardisation, lines 650 to 760.\<close>

record std_state =
  v_n :: nat
  v_L :: "ext list"
  v_U :: "ext list"
  v_cc :: "rat list"
  v_Aeq :: array2
  v_beq :: "rat list"
  v_Aub :: array2
  v_bub :: "rat list"
  v_f0 :: rat
  v_status :: int
  v_message :: string
  v_have_floor_variable :: bool

text \<open>A \<^verbatim>\<open>for\<close> loop over indices whose body may raise.\<close>

fun for_each :: "(nat \<Rightarrow> 's \<Rightarrow> py_error + 's) \<Rightarrow> nat list \<Rightarrow> 's \<Rightarrow> py_error + 's" where
  "for_each body [] st = Inr st"
| "for_each body (i # is) st =
     (case body i st of Inl e \<Rightarrow> Inl e | Inr st' \<Rightarrow> for_each body is st')"

text \<open>\<^verbatim>\<open>n * v\<close> for the int \<open>n\<close> and an item \<open>v\<close> of a pair: TypeError on \<^verbatim>\<open>None\<close>.\<close>

definition int_times :: "nat \<Rightarrow> ext option \<Rightarrow> py_error + ext option" where
  "int_times n v =
     (case v of
        None \<Rightarrow> Inl TypeError
      | Some (Fin a) \<Rightarrow> Inr (Some (Fin (of_nat n * a)))
      | Some w \<Rightarrow> Inr (if n = 0 then None else Some w))"

text \<open>
  The loop of lines 683 to 687 over the n pairs. It assigns \<^verbatim>\<open>L[i]\<close>, then
  \<^verbatim>\<open>U[i]\<close>; the flag says that IndexError was raised, with the assignments made
  until then kept. The length test reads \<^verbatim>\<open>bounds[0]\<close> in every pass.
\<close>

fun read_pairs ::
  "ext option list list \<Rightarrow> nat list \<Rightarrow> ext list \<Rightarrow> ext list \<Rightarrow> bool \<times> ext list \<times> ext list" where
  "read_pairs bounds [] L U = (False, L, U)"
| "read_pairs bounds (i # is) L U =
     (if length (bounds ! 0) \<noteq> 2 then (True, L, U)
      else case bounds ! i of
          [] \<Rightarrow> (True, L, U)
        | lb # items \<Rightarrow>
           (let L = L[i := (case lb of None \<Rightarrow> MInf | Some v \<Rightarrow> v)]
            in case items of
                [] \<Rightarrow> (True, L, U)
              | ub # _ \<Rightarrow>
                  read_pairs bounds is L (U[i := (case ub of None \<Rightarrow> PInf | Some v \<Rightarrow> v)])))"

text \<open>Lines 668 to 691: \<^verbatim>\<open>L\<close>, \<^verbatim>\<open>U\<close>, and the status and message so far.\<close>

definition parse_bounds ::
  "nat \<Rightarrow> ext option list list option \<Rightarrow> py_error + (bounds_array \<times> bounds_array \<times> int \<times> string)" where
  "parse_bounds n bounds =
     (let L = replicate n (Fin 0); U = replicate n PInf
      in case bounds of
           None \<Rightarrow> Inr (Vector L, Vector U, 0, [])
         | Some bs \<Rightarrow>
            if length bs = 0 then Inr (Vector L, Vector U, 0, [])
            else if length bs = 1 then
              (case bs ! 0 of
                 [] \<Rightarrow> Inl IndexError
               | lb # items \<Rightarrow>
                  (case int_times n lb of
                     Inl e \<Rightarrow> Inl e
                   | Inr l \<Rightarrow>
                      (case items of
                         [] \<Rightarrow> Inl IndexError
                       | ub # _ \<Rightarrow>
                          (case int_times n ub of
                             Inl e \<Rightarrow> Inl e
                           | Inr u \<Rightarrow> Inr (Scalar l, Scalar u, 0, [])))))
            else if length bs \<noteq> n then
              Inr (Vector L, Vector U, - 1,
                   ''Invalid input.  Length of bounds is inconsistent with the length of c'')
            else
              (case read_pairs bs [0..<n] L U of
                 (raised, L, U) \<Rightarrow>
                   if raised then
                     Inr (Vector L, Vector U, - 1,
                          ''Invalid input.  bounds must be a n x 2 sequence/array where n = len(c).'')
                   else Inr (Vector L, Vector U, 0, [])))"

text \<open>\<^verbatim>\<open>np.any(L == -np.inf)\<close>.\<close>

fun any_minus_inf :: "bounds_array \<Rightarrow> bool" where
  "any_minus_inf (Scalar v) = (v = Some MInf)"
| "any_minus_inf (Vector l) = (MInf \<in> set l)"

text \<open>\<^verbatim>\<open>np.hstack([np.zeros([A.shape[0],1]), A])\<close>.\<close>

definition hstack_zeros :: "array2 \<Rightarrow> array2" where
  "hstack_zeros A = \<lparr>ncols = Suc (ncols A), rows = map (\<lambda>r. 0 # r) (rows A)\<rparr>"

text \<open>\<^verbatim>\<open>np.vstack([A, np.zeros(n)])\<close> followed by \<^verbatim>\<open>A[-1,i] = a\<close>; the stacking
  raises ValueError unless \<open>A\<close> has \<open>n\<close> columns.\<close>

definition append_unit_row :: "array2 \<Rightarrow> nat \<Rightarrow> nat \<Rightarrow> rat \<Rightarrow> py_error + array2" where
  "append_unit_row A n i a =
     (if ncols A \<noteq> n then Inl ValueError
      else Inr (A\<lparr>rows := rows A @ [(replicate n 0)[i := a]]\<rparr>))"

text \<open>The body of the first loop over the variables, lines 709 to 734.\<close>

definition bound_rows_step :: "nat \<Rightarrow> std_state \<Rightarrow> py_error + std_state" where
  "bound_rows_step i st0 =
     (let st = (if ext_less (v_U st0 ! i) (v_L st0 ! i)
                then st0\<lparr>v_status := - 1,
                         v_message := ''Invalid input.  Lower bound '' @ str_nat i @
                                      '' is greater than upper bound '' @ str_nat i\<rparr>
                else st0);
          st = (if isinf (v_L st ! i) \<and> ext_less (Fin 0) (v_L st ! i)
                then st\<lparr>v_status := - 1,
                        v_message := ''Invalid input.  Lower bound may not be +infinity''\<rparr>
                else st);
          st = (if isinf (v_U st ! i) \<and> ext_less (v_U st ! i) (Fin 0)
                then st\<lparr>v_status := - 1,
                        v_message := ''Invalid input.  Upper bound may not be -infinity''\<rparr>
                else st)
      in case (case v_L st ! i of
                 Fin l \<Rightarrow>
                   if l > 0 then
                     (case append_unit_row (v_Aub st) (v_n st) i (- 1) of
                        Inl e \<Rightarrow> Inl e
                      | Inr A \<Rightarrow> Inr (st\<lparr>v_Aub := A, v_bub := v_bub st @ [- l],
                                         v_L := (v_L st)[i := Fin 0]\<rparr>))
                   else Inr st
               | _ \<Rightarrow> Inr st) of
           Inl e \<Rightarrow> Inl e
         | Inr st \<Rightarrow>
            (case v_U st ! i of
               Fin u \<Rightarrow>
                 (case append_unit_row (v_Aub st) (v_n st) i 1 of
                    Inl e \<Rightarrow> Inl e
                  | Inr A \<Rightarrow> Inr (st\<lparr>v_Aub := A, v_bub := v_bub st @ [u],
                                     v_U := (v_U st)[i := PInf]\<rparr>))
             | _ \<Rightarrow> Inr st))"

text \<open>
  \<^verbatim>\<open>b[:] = b[:] - A[:,i] * l\<close> with numpy's broadcasting: the column must have the
  length of \<open>b\<close> or length 1, since the difference is stored into \<open>b\<close>.
\<close>

definition sub_scaled_column :: "rat list \<Rightarrow> array2 \<Rightarrow> nat \<Rightarrow> rat \<Rightarrow> py_error + rat list" where
  "sub_scaled_column b A i l =
     (if ncols A \<le> i then Inl IndexError
      else let col = column (rows A) i
           in if length col = length b then Inr (map2 (\<lambda>x a. x - a * l) b col)
              else if length col = 1 then Inr (map (\<lambda>x. x - col ! 0 * l) b)
              else Inl ValueError)"

text \<open>\<^verbatim>\<open>A[:,0] = A[:,0] - A[:,i]\<close>.\<close>

definition sub_column_from_first :: "array2 \<Rightarrow> nat \<Rightarrow> py_error + array2" where
  "sub_column_from_first A i =
     (if ncols A \<le> i then Inl IndexError
      else Inr (A\<lparr>rows := map (\<lambda>r. r[0 := r ! 0 - r ! i]) (rows A)\<rparr>))"

text \<open>The body of the second loop over the variables, lines 739 to 760.\<close>

definition shift_step :: "nat \<Rightarrow> std_state \<Rightarrow> py_error + std_state" where
  "shift_step i st =
     (case (if ext_less (v_L st ! i) (Fin 0) then
              (case v_L st ! i of
                 Fin l \<Rightarrow>
                   (case sub_scaled_column (v_beq st) (v_Aeq st) i l of
                      Inl e \<Rightarrow> Inl e
                    | Inr beq \<Rightarrow>
                       (case sub_scaled_column (v_bub st) (v_Aub st) i l of
                          Inl e \<Rightarrow> Inl e
                        | Inr bub \<Rightarrow>
                            Inr (st\<lparr>v_beq := beq, v_bub := bub,
                                    v_f0 := v_f0 st - v_cc st ! i * l\<rparr>)))
               | _ \<Rightarrow>
                   (case sub_column_from_first (v_Aeq st) i of
                      Inl e \<Rightarrow> Inl e
                    | Inr Aeq \<Rightarrow>
                       (case sub_column_from_first (v_Aub st) i of
                          Inl e \<Rightarrow> Inl e
                        | Inr Aub \<Rightarrow>
                            Inr (st\<lparr>v_Aeq := Aeq, v_Aub := Aub,
                                    v_cc := (v_cc st)[0 := v_cc st ! 0 - v_cc st ! i]\<rparr>))))
            else Inr st) of
        Inl e \<Rightarrow> Inl e
      | Inr st \<Rightarrow>
          Inr (if isinf (v_U st ! i) \<and> ext_less (v_U st ! i) (Fin 0)
               then st\<lparr>v_status := - 1,
                       v_message := ''Invalid input.  Upper bound may not be -inf.''\<rparr>
               else st))"

text \<open>The shape checks of lines 794 to 812.\<close>

definition check_shapes :: "std_state \<Rightarrow> std_state" where
  "check_shapes st0 =
     (let mub = length (v_bub st0); meq = length (v_beq st0);
          st = (if length (rows (v_Aeq st0)) \<noteq> meq
                then st0\<lparr>v_status := - 1,
                   v_message := ''Invalid input.  The number of rows in A_eq must be equal to the number of values in b_eq''\<rparr>
                else st0);
          st = (if length (rows (v_Aub st)) \<noteq> mub
                then st\<lparr>v_status := - 1,
                   v_message := ''Invalid input.  The number of rows in A_ub must be equal to the number of values in b_ub''\<rparr>
                else st);
          st = (if ncols (v_Aeq st) > 0 \<and> ncols (v_Aeq st) \<noteq> v_n st
                then st\<lparr>v_status := - 1,
                   v_message := ''Invalid input.  Number of columns in A_eq must be equal to the size of c''\<rparr>
                else st);
          st = (if ncols (v_Aub st) > 0 \<and> ncols (v_Aub st) \<noteq> v_n st
                then st\<lparr>v_status := - 1,
                   v_message := ''Invalid input.  Number of columns in A_ub must be equal to the size of c''\<rparr>
                else st)
      in st)"

text \<open>
  Lines 661 to 664: \<^verbatim>\<open>np.asarray(A) if not A is None else np.empty([0,len(cc)])\<close> and
  \<^verbatim>\<open>np.ravel(np.asarray(b)) if not b is None else np.empty([0])\<close>.
\<close>

definition matrix_or_empty :: "nat \<Rightarrow> array2 option \<Rightarrow> array2" where
  "matrix_or_empty n A = (case A of Some M \<Rightarrow> M | None \<Rightarrow> \<lparr>ncols = n, rows = []\<rparr>)"

definition vector_or_empty :: "rat list option \<Rightarrow> rat list" where
  "vector_or_empty b = (case b of Some v \<Rightarrow> v | None \<Rightarrow> [])"

text \<open>
  Lines 650 to 812: the standardised problem, or the exception raised on the way. With
  \<^verbatim>\<open>L\<close> of dimension 0 the first loop raises IndexError at \<^verbatim>\<open>L[i]\<close> as soon as it
  has a pass to make, and the concatenation of line 698 raises ValueError; with no
  variable at all neither loop runs and \<^verbatim>\<open>L\<close> is only added to the empty solution.
\<close>

definition standardize ::
  "rat list \<Rightarrow> array2 option \<Rightarrow> rat list option \<Rightarrow> array2 option \<Rightarrow> rat list option
     \<Rightarrow> ext option list list option \<Rightarrow> py_error + std_state" where
  "standardize c A_ub b_ub A_eq b_eq bounds =
     (let cc = c; f0 = 0; n = length c;
          Aeq = matrix_or_empty (length cc) A_eq;
          Aub = matrix_or_empty (length cc) A_ub;
          beq = vector_or_empty b_eq;
          bub = vector_or_empty b_ub
      in case parse_bounds n bounds of
           Inl e \<Rightarrow> Inl e
         | Inr (L, U, status, message) \<Rightarrow>
            (case (if any_minus_inf L then
                     (case (L, U) of
                        (Vector Lv, Vector Uv) \<Rightarrow>
                          Inr \<lparr>v_n = n + 1, v_L = Fin 0 # Lv, v_U = PInf # Uv, v_cc = 0 # cc,
                               v_Aeq = hstack_zeros Aeq, v_beq = beq,
                               v_Aub = hstack_zeros Aub, v_bub = bub, v_f0 = f0,
                               v_status = status, v_message = message,
                               v_have_floor_variable = True\<rparr>
                      | _ \<Rightarrow> Inl ValueError)
                   else
                     (case (L, U) of
                        (Vector Lv, Vector Uv) \<Rightarrow>
                          Inr \<lparr>v_n = n, v_L = Lv, v_U = Uv, v_cc = cc, v_Aeq = Aeq,
                               v_beq = beq, v_Aub = Aub, v_bub = bub, v_f0 = f0,
                               v_status = status, v_message = message,
                               v_have_floor_variable = False\<rparr>
                      | _ \<Rightarrow>
                          if n = 0
                          then Inr \<lparr>v_n = n, v_L = [], v_U = [], v_cc = cc, v_Aeq = Aeq,
                               v_beq = beq, v_Aub = Aub, v_bub = bub, v_f0 = f0,
                               v_status = status, v_message = message,
                               v_have_floor_variable = False\<rparr>
                          else Inl IndexError)) of
               Inl e \<Rightarrow> Inl e
             | Inr st \<Rightarrow>
                (case for_each bound_rows_step [0..<v_n st] st of
                   Inl e \<Rightarrow> Inl e
                 | Inr st \<Rightarrow>
                    (case for_each shift_step [0..<v_n st] st of
                       Inl e \<Rightarrow> Inl e
                     | Inr st \<Rightarrow> Inr (check_shapes st)))))"

text \<open>
  The tableau of lines 822 to 860. Row \<open>i\<close> of the constraints holds the coefficients,
  the slack entries (the identity on the inequality rows), the artificial entries and
  the right-hand side. A row with a negative right-hand side has its coefficients,
  slack entries and right-hand side negated before the artificial identity is written.
  The assignments \<^verbatim>\<open>T[:meq,:n] = Aeq\<close> and \<^verbatim>\<open>T[meq:meq+mub,:n] = Aub\<close> raise
  ValueError when the matrix has rows but not \<open>n\<close> columns.
\<close>

definition unit_vec :: "nat \<Rightarrow> nat \<Rightarrow> rat list" where
  "unit_vec k j = (replicate k 0)[j := 1]"

definition constraint_row :: "nat \<Rightarrow> nat \<Rightarrow> rat list \<Rightarrow> rat \<Rightarrow> rat list" where
  "constraint_row n_artificial i coeffs b =
     (if b < 0 then map uminus coeffs @ unit_vec n_artificial i @ [- b]
      else coeffs @ unit_vec n_artificial i @ [b])"

definition build_tableau :: "std_state \<Rightarrow> py_error + rat list list" where
  "build_tableau st =
     (let n = v_n st; mub = length (v_bub st); meq = length (v_beq st); m = mub + meq;
          n_slack = mub; n_artificial = m
      in if meq > 0 \<and> ncols (v_Aeq st) \<noteq> n then Inl ValueError
         else if mub > 0 \<and> ncols (v_Aub st) \<noteq> n then Inl ValueError
         else
           (let eq_rows = map (\<lambda>i. constraint_row n_artificial i
                                  (rows (v_Aeq st) ! i @ replicate n_slack 0) (v_beq st ! i))
                              [0..<meq];
                ub_rows = map (\<lambda>j. constraint_row n_artificial (meq + j)
                                  (rows (v_Aub st) ! j @ unit_vec n_slack j) (v_bub st ! j))
                              [0..<mub];
                objective = v_cc st @ replicate (n_slack + n_artificial) 0 @ [v_f0 st];
                pseudo0 = replicate (n + n_slack) 0 @ replicate n_artificial 1 @ [0];
                pseudo = foldl (\<lambda>p r. map2 (\<lambda>a b. a - b) p r) pseudo0 (eq_rows @ ub_rows)
            in Inr (eq_rows @ ub_rows @ [objective, pseudo])))"

text \<open>Lines 884 to 886: the pseudo-objective row and the artificial columns removed.\<close>

definition drop_artificial :: "nat \<Rightarrow> nat \<Rightarrow> nat \<Rightarrow> rat list list \<Rightarrow> rat list list" where
  "drop_artificial n n_slack n_artificial T =
     map (\<lambda>r. take (n + n_slack) r @ drop (n + n_slack + n_artificial) r) (butlast T)"

text \<open>Lines 907 to 916: the change of variables undone on the solution of phase 2.\<close>

definition restore_solution :: "std_state \<Rightarrow> rat list \<Rightarrow> rat list" where
  "restore_solution st x0 =
     (let masked_L = map (\<lambda>l. case l of Fin a \<Rightarrow> a | _ \<Rightarrow> 0) (v_L st);
          x = map2 (\<lambda>a b. a + b) x0 masked_L
      in if v_have_floor_variable st
         then map (\<lambda>i. if isinf (v_L st ! i) then x ! i - x ! 0 else x ! i) [1..<v_n st]
         else x)"

text \<open>
  \<^verbatim>\<open>_linprog_simplex\<close> without the printing of \<^verbatim>\<open>disp\<close>. The result carries the
  \<^verbatim>\<open>return\<close> statement that produced it and the observer calls of both phases.
\<close>

definition linprog_simplex ::
  "rat list \<Rightarrow> array2 option \<Rightarrow> rat list option \<Rightarrow> array2 option \<Rightarrow> rat list option
     \<Rightarrow> ext option list list option \<Rightarrow> int \<Rightarrow> bool \<Rightarrow> rat
     \<Rightarrow> py_error + (exit_point \<times> result \<times> payload list)" where
  "linprog_simplex c A_ub b_ub A_eq b_eq bounds maxiter callback tol =
     (case standardize c A_ub b_ub A_eq b_eq bounds of
        Inl e \<Rightarrow> Inl e
      | Inr st \<Rightarrow>
         if v_status st \<noteq> 0 then
           Inr (Invalid_input,
                \<lparr>r_x = replicate (length (v_cc st)) 0, r_fun = 0, r_nit = 0,
                  r_status = v_status st, r_message = v_message st, r_success = False\<rparr>,
                [])
         else
           (case build_tableau st of
              Inl e \<Rightarrow> Inl e
            | Inr T \<Rightarrow>
               (let n = v_n st; n_slack = length (v_bub st);
                    n_artificial = length (v_bub st) + length (v_beq st)
                in case lpsimplex T n n_slack n_artificial maxiter 1 callback tol 0 of
                     Inl e \<Rightarrow> Inl e
                   | Inr p1 \<Rightarrow>
                      (let feasible = (\<bar>last (last (o_tableau p1))\<bar> < tol);
                           T = (if feasible
                                then drop_artificial n n_slack n_artificial (o_tableau p1)
                                else o_tableau p1);
                           status = (if feasible then o_status p1 else 2);
                           message = (if feasible then o_message p1
                              else ''Optimization Failed.  Unable to find a feasible starting point.'')
                       in if status \<noteq> 0 then
                            Inr (Phase1_failed,
                                 \<lparr>r_x = o_x p1, r_fun = - last (last T), r_nit = o_nit p1,
                                   r_status = status, r_message = message,
                                   r_success = False\<rparr>,
                                 o_calls p1)
                          else
                            (case lpsimplex T n n_slack n_artificial maxiter 2 callback tol
                                    (o_nit p1) of
                               Inl e \<Rightarrow> Inl e
                             | Inr p2 \<Rightarrow>
                                 Inr (Finished,
                                      \<lparr>r_x = restore_solution st (o_x p2),
                                        r_fun = - last (last (o_tableau p2)),
                                        r_nit = o_nit p2, r_status = o_status p2,
                                        r_message = o_message p2,
                                        r_success = (o_status p2 = 0)\<rparr>,
                                      o_calls p1 @ o_calls p2))))))"

section \<open>Predicates used in the statements\<close>

text \<open>
  Column \<open>col\<close> of \<open>T\<close> has the entry 1 in row \<open>r\<close> and the entry 0 in every other
  row, the objective rows included.
\<close>

definition unit_column :: "rat list list \<Rightarrow> nat \<Rightarrow> nat \<Rightarrow> bool" where
  "unit_column T col r =
     (r < length T \<and> T ! r ! col = 1 \<and> (\<forall>r' < length T. r' \<noteq> r \<longrightarrow> T ! r' ! col = 0))"

definition unit_list :: "rat list \<Rightarrow> nat \<Rightarrow> bool" where
  "unit_list v r = (r < length v \<and> v ! r = 1 \<and> (\<forall>r' < length v. r' \<noteq> r \<longrightarrow> v ! r' = 0))"

text \<open>
  The basis as the specification words it, for a tableau with \<open>n_obj\<close> objective rows
  at the bottom: the column has exactly one entry equal to 1 and all its other entries
  equal to 0, the objective rows left out of the test.
\<close>

definition spec_basic_column :: "nat \<Rightarrow> rat list list \<Rightarrow> nat \<Rightarrow> bool" where
  "spec_basic_column n_obj T col =
     (\<exists>r < length T - n_obj. T ! r ! col = 1 \<and>
        (\<forall>r' < length T - n_obj. r' \<noteq> r \<longrightarrow> T ! r' ! col = 0))"

text \<open>
  The rows, each with its right-hand side, that the first loop over the variables
  appends for variable \<open>i\<close>: \<^verbatim>\<open>-x_i <= -lb_i\<close> for a finite positive lower bound, then
  \<^verbatim>\<open>x_i <= ub_i\<close> for a finite upper bound.
\<close>

definition bound_rows :: "nat \<Rightarrow> ext list \<Rightarrow> ext list \<Rightarrow> nat \<Rightarrow> (rat list \<times> rat) list" where
  "bound_rows n L U i =
     (case L ! i of Fin l \<Rightarrow> if 0 < l then [((replicate n 0)[i := - 1], - l)] else [] | _ \<Rightarrow> []) @
     (case U ! i of Fin u \<Rightarrow> [((replicate n 0)[i := 1], u)] | _ \<Rightarrow> [])"

text \<open>The bounds that the first loop leaves for a variable.\<close>

definition lower_after :: "ext \<Rightarrow> ext" where
  "lower_after l = (case l of Fin a \<Rightarrow> if 0 < a then Fin 0 else Fin a | _ \<Rightarrow> l)"

definition upper_after :: "ext \<Rightarrow> ext" where
  "upper_after u = (case u of Fin a \<Rightarrow> PInf | _ \<Rightarrow> u)"

text \<open>
  The three validity tests of the first loop, lines 709 to 720: the lower bound above
  the upper bound, a lower bound of +infinity, an upper bound of -infinity.
\<close>

definition bad_bounds :: "ext \<Rightarrow> ext \<Rightarrow> bool" where
  "bad_bounds l u =
     (ext_less u l \<or> (isinf l \<and> ext_less (Fin 0) l) \<or> (isinf u \<and> ext_less u (Fin 0)))"

text \<open>The bounds that a pair of two items denotes, \<^verbatim>\<open>None\<close> standing for no bound.\<close>

definition lower_of :: "ext option list \<Rightarrow> ext" where
  "lower_of p = (case p ! 0 of None \<Rightarrow> MInf | Some v \<Rightarrow> v)"

definition upper_of :: "ext option list \<Rightarrow> ext" where
  "upper_of p = (case p ! 1 of None \<Rightarrow> PInf | Some v \<Rightarrow> v)"

text \<open>The shapes that the standardisation and the tableau builder rely on.\<close>

definition shapes_agree :: "std_state \<Rightarrow> bool" where
  "shapes_agree st =
     (ncols (v_Aub st) = v_n st \<and> ncols (v_Aeq st) = v_n st \<and>
      length (rows (v_Aub st)) = length (v_bub st) \<and>
      length (rows (v_Aeq st)) = length (v_beq st) \<and>
      length (v_L st) = v_n st \<and> length (v_U st) = v_n st \<and> length (v_cc st) = v_n st)"

text \<open>
  A list of observer calls that starts at tableau \<open>T\<close> and iteration \<open>nit\<close>: every call
  carries the phase, the iteration count and the tableau of its pass; a call that is
  followed by another has the completion flag false, and the next call carries the
  tableau pivoted at the position that the call announced.
\<close>

fun calls_chain :: "int \<Rightarrow> rat list list \<Rightarrow> int \<Rightarrow> payload list \<Rightarrow> bool" where
  "calls_chain phase T nit [] = True"
| "calls_chain phase T nit [p] = (p_tableau p = T \<and> p_iter p = nit \<and> p_phase p = phase)"
| "calls_chain phase T nit (p # q # cs) =
     (p_tableau p = T \<and> p_iter p = nit \<and> p_phase p = phase \<and> \<not> p_complete p \<and>
      calls_chain phase (pivot T (fst (p_pivot p)) (snd (p_pivot p))) (nit + 1) (q # cs))"

section \<open>The engine's loop\<close>

text \<open>The four ways one evaluation of the loop condition and body can go.\<close>

lemma lp_loop_stop:
  "\<not> (s_nit s < maxiter \<and> s_status s = None) \<Longrightarrow>
     lp_loop n phase callback headers tol tableau0 maxiter s =
       (if s_nit s \<ge> maxiter then Inr (s, 1, ''Iteration limit reached.'')
        else Inr (s, 0, ''Optimization terminated successfully.''))"
  by (subst lp_loop.simps, rule if_not_P)

lemma lp_loop_raise:
  "s_nit s < maxiter \<Longrightarrow> s_status s = None \<Longrightarrow>
   lp_body n phase callback headers tol tableau0 s = Inl e \<Longrightarrow>
     lp_loop n phase callback headers tol tableau0 maxiter s = Inl e"
  by (subst lp_loop.simps) simp

lemma lp_loop_break:
  "s_nit s < maxiter \<Longrightarrow> s_status s = None \<Longrightarrow>
   lp_body n phase callback headers tol tableau0 s = Inr (True, s') \<Longrightarrow>
     lp_loop n phase callback headers tol tableau0 maxiter s =
       Inr (s', 3, ''Optimization failed. The problem appears to be unbounded.'')"
  by (subst lp_loop.simps) simp

lemma lp_loop_continue:
  "s_nit s < maxiter \<Longrightarrow> s_status s = None \<Longrightarrow>
   lp_body n phase callback headers tol tableau0 s = Inr (False, s') \<Longrightarrow>
     lp_loop n phase callback headers tol tableau0 maxiter s =
     lp_loop n phase callback headers tol tableau0 maxiter s'"
  by (subst lp_loop.simps) simp

lemma lp_loop_exit_status:
  "lp_loop n phase callback headers tol tableau0 maxiter s = Inr (s', st, msg)
     \<Longrightarrow> st = 0 \<or> st = 1 \<or> st = 3"
proof (induction n phase callback headers tol tableau0 maxiter s rule: lp_loop.induct)
  case (1 n phase callback headers tol tableau0 maxiter s)
  show ?case
  proof (cases "s_nit s < maxiter \<and> s_status s = None")
    case False
    with "1.prems" show ?thesis by (auto simp: lp_loop_stop split: if_splits)
  next
    case c: True
    show ?thesis
    proof (cases "lp_body n phase callback headers tol tableau0 s")
      case (Inl e)
      with c "1.prems" show ?thesis by (simp add: lp_loop_raise)
    next
      case (Inr p)
      obtain b s1 where p: "p = (b, s1)" by (cases p)
      show ?thesis
      proof (cases b)
        case True
        with c Inr p "1.prems" show ?thesis by (simp add: lp_loop_break)
      next
        case False
        with c Inr p "1.prems"
        have "lp_loop n phase callback headers tol tableau0 maxiter s1 = Inr (s', st, msg)"
          by (simp add: lp_loop_continue)
        with "1.IH" [OF c Inr p [symmetric] False] show ?thesis .
      qed
    qed
  qed
qed

lemma ratio_rows_phase_other:
  "phase \<noteq> 1 \<Longrightarrow> ratio_rows T phase pivcol = ratio_rows T 2 pivcol"
  by (simp add: ratio_rows_def)

lemma callback_step_absent:
  "callback_step n phase False headers T nit piv status calls = Inr calls"
  by (simp add: callback_step_def)

lemma lp_body_phase_other:
  "phase \<noteq> 1 \<Longrightarrow>
     lp_body n phase False headers tol tableau0 s = lp_body n 2 False headers tol tableau0 s"
proof -
  assume "phase \<noteq> 1"
  then have r: "\<And>T pivcol. ratio_rows T phase pivcol = ratio_rows T 2 pivcol"
    by (rule ratio_rows_phase_other)
  show ?thesis
    unfolding lp_body_def callback_step_absent r ..
qed

lemma lp_loop_phase_other:
  "phase \<noteq> 1 \<Longrightarrow>
     lp_loop n phase False headers tol tableau0 maxiter s =
     lp_loop n 2 False headers tol tableau0 maxiter s"
proof (induction n phase "False" headers tol tableau0 maxiter s rule: lp_loop.induct)
  case (1 n phase headers tol tableau0 maxiter s)
  note b = lp_body_phase_other [OF "1.prems", of n headers tol tableau0 s]
  show ?case
  proof (cases "s_nit s < maxiter \<and> s_status s = None")
    case False
    from lp_loop_stop [OF False] show ?thesis by simp
  next
    case c: True
    then have c1: "s_nit s < maxiter" and c2: "s_status s = None" by auto
    show ?thesis
    proof (cases "lp_body n phase False headers tol tableau0 s")
      case (Inl e)
      with b have b2: "lp_body n 2 False headers tol tableau0 s = Inl e" by simp
      show ?thesis
        by (simp only: lp_loop_raise [OF c1 c2 Inl] lp_loop_raise [OF c1 c2 b2])
    next
      case (Inr p)
      obtain br s1 where p: "p = (br, s1)" by (cases p)
      show ?thesis
      proof (cases br)
        case True
        with Inr p have b1: "lp_body n phase False headers tol tableau0 s = Inr (True, s1)"
          by simp
        with b have b2: "lp_body n 2 False headers tol tableau0 s = Inr (True, s1)" by simp
        show ?thesis
          by (simp only: lp_loop_break [OF c1 c2 b1] lp_loop_break [OF c1 c2 b2])
      next
        case False
        with Inr p have b1: "lp_body n phase False headers tol tableau0 s = Inr (False, s1)"
          by simp
        with b have b2: "lp_body n 2 False headers tol tableau0 s = Inr (False, s1)" by simp
        from "1.hyps" [OF c Inr p [symmetric] False "1.prems"]
        show ?thesis
          by (simp only: lp_loop_continue [OF c1 c2 b1] lp_loop_continue [OF c1 c2 b2])
      qed
    qed
  qed
qed

section \<open>Claims about the engine's status\<close>

text \<open>
  Claim C9. For every tableau and every argument, \<^verbatim>\<open>lpsimplex\<close> never returns
  status -1: whenever it returns, the status is 0, 1 or 3. The status -1 that the phase
  check assigns is overwritten before the loop, so a phase other than 1 and 2 does not
  stop the engine: without an observer it returns exactly what it returns for phase 2.
\<close>

theorem lpsimplex_never_invalid_status:
  "(\<forall>out. lpsimplex tableau n n_slack n_artificial maxiter phase callback tol nit0 = Inr out
       \<longrightarrow> o_status out \<noteq> - 1 \<and> (o_status out = 0 \<or> o_status out = 1 \<or> o_status out = 3)) \<and>
   (phase \<noteq> 1 \<and> phase \<noteq> 2 \<longrightarrow>
      lpsimplex tableau n n_slack n_artificial maxiter phase False tol nit0 =
      lpsimplex tableau n n_slack n_artificial maxiter 2 False tol nit0)"
proof (intro conjI allI impI)
  fix out
  assume a: "lpsimplex tableau n n_slack n_artificial maxiter phase callback tol nit0 = Inr out"
  then obtain s st msg headers where
    l: "lp_loop n phase callback headers tol tableau maxiter
          \<lparr>s_tableau = tableau, s_nit = nit0, s_status = None, s_cycle = 0, s_calls = []\<rparr>
        = Inr (s, st, msg)" and o: "o_status out = st"
    unfolding lpsimplex_def Let_def
    by (auto split: sum.splits prod.splits)
  from lp_loop_exit_status [OF l] o
  show "o_status out = 0 \<or> o_status out = 1 \<or> o_status out = 3" by simp
  then show "o_status out \<noteq> - 1" by auto
next
  assume "phase \<noteq> 1 \<and> phase \<noteq> 2"
  then show "lpsimplex tableau n n_slack n_artificial maxiter phase False tol nit0 =
      lpsimplex tableau n n_slack n_artificial maxiter 2 False tol nit0"
    by (simp add: lpsimplex_def lp_loop_phase_other [of phase])
qed


theorem lpsimplex_never_invalid_status_witness:
  "lpsimplex [[1, 1, 1], [- 1, 0, 0]] 1 1 0 1000 3 False (1 / 10 ^ 12) 0 =
     Inr \<lparr>o_x = [1], o_nit = 1, o_status = 0,
          o_message = ''Optimization terminated successfully.'',
          o_tableau = [[1, 1, 1], [0, 1, 1]], o_calls = []\<rparr> \<and>
   (0 :: int) \<noteq> - 1 \<and> (3 :: int) \<noteq> 1 \<and> (3 :: int) \<noteq> 2 \<and>
   lpsimplex [[1, 1, 1], [- 1, 0, 0]] 1 1 0 1000 3 False (1 / 10 ^ 12) 0 =
   lpsimplex [[1, 1, 1], [- 1, 0, 0]] 1 1 0 1000 2 False (1 / 10 ^ 12) 0"
proof -
  have e: "lpsimplex [[1, 1, 1], [- 1, 0, 0]] 1 1 0 1000 3 False (1 / 10 ^ 12) 0 =
     Inr \<lparr>o_x = [1], o_nit = 1, o_status = 0,
          o_message = ''Optimization terminated successfully.'',
          o_tableau = [[1, 1, 1], [0, 1, 1]], o_calls = []\<rparr>"
    by code_simp
  note t = lpsimplex_never_invalid_status
    [of "[[1, 1, 1], [- 1, 0, 0]]" 1 1 0 1000 3 False "1 / 10 ^ 12" 0]
  from t have "lpsimplex [[1, 1, 1], [- 1, 0, 0]] 1 1 0 1000 3 False (1 / 10 ^ 12) 0 =
   lpsimplex [[1, 1, 1], [- 1, 0, 0]] 1 1 0 1000 2 False (1 / 10 ^ 12) 0"
    by simp
  with e show ?thesis by simp
qed

section \<open>The basis reader\<close>

lemma count_zeros_all:
  "length (filter (\<lambda>a. a = (0::rat)) v) = length v \<longleftrightarrow> (\<forall>a \<in> set v. a = 0)"
proof
  assume h: "length (filter (\<lambda>a. a = (0::rat)) v) = length v"
  show "\<forall>a \<in> set v. a = 0"
  proof (rule ccontr)
    assume "\<not> (\<forall>a \<in> set v. a = 0)"
    then obtain b where "b \<in> set v" "b \<noteq> 0" by blast
    then have "length (filter (\<lambda>a. a = (0::rat)) v) < length v"
      by (rule length_filter_less)
    with h show False by simp
  qed
next
  assume "\<forall>a \<in> set v. a = 0"
  then have "filter (\<lambda>a. a = (0::rat)) v = v" by (simp add: filter_id_conv)
  then show "length (filter (\<lambda>a. a = (0::rat)) v) = length v" by simp
qed

lemma count_ones_none:
  "(\<forall>a \<in> set v. a = (0::rat)) \<Longrightarrow> length (filter (\<lambda>a. a = 1) v) = 0"
  by (induction v) auto

lemma unit_list_Cons:
  "unit_list (a # v) r \<longleftrightarrow>
     (r = 0 \<and> a = 1 \<and> (\<forall>b \<in> set v. b = 0)) \<or> (\<exists>k. r = Suc k \<and> a = 0 \<and> unit_list v k)"
proof (cases r)
  case 0
  have "(\<forall>r'<Suc (length v). r' \<noteq> 0 \<longrightarrow> (a # v) ! r' = 0) \<longleftrightarrow> (\<forall>b \<in> set v. b = 0)"
  proof
    assume h: "\<forall>r'<Suc (length v). r' \<noteq> 0 \<longrightarrow> (a # v) ! r' = 0"
    show "\<forall>b \<in> set v. b = 0"
    proof
      fix b assume "b \<in> set v"
      then obtain i where "i < length v" "v ! i = b" by (auto simp: in_set_conv_nth)
      with h [rule_format, of "Suc i"] show "b = 0" by simp
    qed
  next
    assume h: "\<forall>b \<in> set v. b = 0"
    show "\<forall>r'<Suc (length v). r' \<noteq> 0 \<longrightarrow> (a # v) ! r' = 0"
    proof (intro allI impI)
      fix r' assume "r' < Suc (length v)" "r' \<noteq> 0"
      then obtain i where "r' = Suc i" "i < length v" by (cases r') auto
      with h show "(a # v) ! r' = 0" by simp
    qed
  qed
  with 0 show ?thesis by (simp add: unit_list_def)
next
  case (Suc k)
  have "(\<forall>r'<Suc (length v). r' \<noteq> Suc k \<longrightarrow> (a # v) ! r' = 0) \<longleftrightarrow>
        (a = 0 \<and> (\<forall>r'<length v. r' \<noteq> k \<longrightarrow> v ! r' = 0))"
  proof
    assume h: "\<forall>r'<Suc (length v). r' \<noteq> Suc k \<longrightarrow> (a # v) ! r' = 0"
    from h [rule_format, of 0] have "a = 0" by simp
    moreover have "\<forall>r'<length v. r' \<noteq> k \<longrightarrow> v ! r' = 0"
    proof (intro allI impI)
      fix r' assume "r' < length v" "r' \<noteq> k"
      with h [rule_format, of "Suc r'"] show "v ! r' = 0" by simp
    qed
    ultimately show "a = 0 \<and> (\<forall>r'<length v. r' \<noteq> k \<longrightarrow> v ! r' = 0)" by simp
  next
    assume h: "a = 0 \<and> (\<forall>r'<length v. r' \<noteq> k \<longrightarrow> v ! r' = 0)"
    show "\<forall>r'<Suc (length v). r' \<noteq> Suc k \<longrightarrow> (a # v) ! r' = 0"
    proof (intro allI impI)
      fix r' assume "r' < Suc (length v)" "r' \<noteq> Suc k"
      with h show "(a # v) ! r' = 0" by (cases r') auto
    qed
  qed
  with Suc show ?thesis by (auto simp: unit_list_def)
qed

lemma counts_unit_list:
  "(length (filter (\<lambda>a. a = 1) v) = 1 \<and>
    int (length (filter (\<lambda>a. a = 0) v)) = int (length v) - 1) \<longleftrightarrow> (\<exists>r. unit_list v r)"
proof (induction v)
  case Nil
  show ?case by (simp add: unit_list_def)
next
  case (Cons a v)
  consider "a = 1" | "a = 0" | "a \<noteq> 0 \<and> a \<noteq> 1" by blast
  then show ?case
  proof cases
    case 1
    have "(length (filter (\<lambda>a. a = 1) (a # v)) = 1 \<and>
      int (length (filter (\<lambda>a. a = 0) (a # v))) = int (length (a # v)) - 1) \<longleftrightarrow>
      (length (filter (\<lambda>a. a = 1) v) = 0 \<and> length (filter (\<lambda>a. a = 0) v) = length v)"
      using 1 by auto
    also have "\<dots> \<longleftrightarrow> (\<forall>b \<in> set v. b = 0)"
      using count_zeros_all [of v] count_ones_none [of v] by auto
    also have "\<dots> \<longleftrightarrow> (\<exists>r. unit_list (a # v) r)"
      using 1 by (auto simp: unit_list_Cons)
    finally show ?thesis .
  next
    case 2
    have "(length (filter (\<lambda>a. a = 1) (a # v)) = 1 \<and>
      int (length (filter (\<lambda>a. a = 0) (a # v))) = int (length (a # v)) - 1) \<longleftrightarrow>
      (length (filter (\<lambda>a. a = 1) v) = 1 \<and>
       int (length (filter (\<lambda>a. a = 0) v)) = int (length v) - 1)"
      using 2 by auto
    also have "\<dots> \<longleftrightarrow> (\<exists>r. unit_list v r)" by (rule Cons.IH)
    also have "\<dots> \<longleftrightarrow> (\<exists>r. unit_list (a # v) r)"
      using 2 by (auto simp: unit_list_Cons)
    finally show ?thesis .
  next
    case 3
    have "\<not> (length (filter (\<lambda>a. a = 1) (a # v)) = 1 \<and>
      int (length (filter (\<lambda>a. a = 0) (a # v))) = int (length (a # v)) - 1)"
    proof
      assume h: "length (filter (\<lambda>a. a = 1) (a # v)) = 1 \<and>
        int (length (filter (\<lambda>a. a = 0) (a # v))) = int (length (a # v)) - 1"
      with 3 have "length (filter (\<lambda>a. a = 0) v) = length v" by auto
      then have "\<forall>b \<in> set v. b = 0" by (simp add: count_zeros_all)
      then have "length (filter (\<lambda>a. a = 1) v) = 0" by (rule count_ones_none)
      with h 3 show False by auto
    qed
    moreover have "\<not> (\<exists>r. unit_list (a # v) r)"
      using 3 by (auto simp: unit_list_Cons)
    ultimately show ?thesis by simp
  qed
qed

lemma unit_column_list: "unit_column T col r = unit_list (column T col) r"
  by (auto simp: unit_column_def unit_list_def column_def)

lemma is_basic_col_unit: "is_basic_col T col \<longleftrightarrow> (\<exists>r. unit_column T col r)"
  unfolding is_basic_col_def unit_column_list
  using counts_unit_list [of "column T col"] by (simp add: column_def)

lemma unit_list_unique: "unit_list v r \<Longrightarrow> unit_list v r' \<Longrightarrow> r = r'"
  by (auto simp: unit_list_def)

lemma first_nonzero_zeros:
  "(\<forall>a \<in> set v. a = 0) \<Longrightarrow> first_nonzero v = Inl IndexError"
  by (induction v) auto

lemma first_nonzero_at:
  "k < length v \<Longrightarrow> v ! k \<noteq> 0 \<Longrightarrow> (\<forall>i < k. v ! i = 0) \<Longrightarrow> first_nonzero v = Inr k"
proof (induction v arbitrary: k)
  case Nil
  then show ?case by simp
next
  case (Cons a v)
  show ?case
  proof (cases k)
    case 0
    with Cons.prems show ?thesis by simp
  next
    case (Suc j)
    with Cons.prems have "a = 0" by auto
    moreover from Suc Cons.prems have "first_nonzero v = Inr j"
      by (intro Cons.IH) auto
    ultimately show ?thesis using Suc by simp
  qed
qed

lemma first_nonzero_unit:
  assumes "unit_list v r"
  shows "first_nonzero (butlast v) =
           (if r < length v - 1 then Inr r else Inl IndexError)"
proof (cases "r < length v - 1")
  case True
  with assms have "r < length (butlast v)" "butlast v ! r \<noteq> 0"
    "\<forall>i < r. butlast v ! i = 0"
    by (auto simp: unit_list_def nth_butlast)
  then have "first_nonzero (butlast v) = Inr r" by (rule first_nonzero_at)
  with True show ?thesis by simp
next
  case False
  with assms have r: "r = length v - 1" by (auto simp: unit_list_def)
  have "\<forall>a \<in> set (butlast v). a = 0"
  proof
    fix a assume "a \<in> set (butlast v)"
    then obtain i where "i < length (butlast v)" "butlast v ! i = a"
      by (auto simp: in_set_conv_nth)
    with assms r show "a = 0" by (auto simp: unit_list_def nth_butlast)
  qed
  then have "first_nonzero (butlast v) = Inl IndexError" by (rule first_nonzero_zeros)
  with False show ?thesis by simp
qed

text \<open>What the loop over the columns returns: the unit columns with the right-hand side
  of their row, or IndexError when a unit column has its 1 in the last row.\<close>

lemma unit_column_unique: "unit_column T c r \<Longrightarrow> unit_column T c r' \<Longrightarrow> r = r'"
  unfolding unit_column_list by (rule unit_list_unique)

lemma basic_col_read:
  assumes "unit_column T c r"
  shows "first_nonzero (butlast (column T c)) =
           (if r < length T - 1 then Inr r else Inl IndexError)"
proof -
  from assms have ul: "unit_list (column T c) r" by (simp add: unit_column_list)
  have len: "length (column T c) = length T" by (simp add: column_def)
  from first_nonzero_unit [OF ul] len show ?thesis by simp
qed

lemma get_basics_cols_skip:
  "\<not> is_basic_col T c \<Longrightarrow> get_basics_cols T (c # cols) = get_basics_cols T cols"
  by simp

lemma get_basics_cols_take:
  "unit_column T c r \<Longrightarrow> r < length T - 1 \<Longrightarrow>
     get_basics_cols T (c # cols) =
       (case get_basics_cols T cols of
          Inl e \<Rightarrow> Inl e
        | Inr rest \<Rightarrow> Inr ((c, last (T ! r)) # rest))"
proof -
  assume r: "unit_column T c r" and rl: "r < length T - 1"
  from r have b: "is_basic_col T c" by (auto simp: is_basic_col_unit)
  from basic_col_read [OF r] rl
  have "first_nonzero (butlast (column T c)) = Inr r" by simp
  with b show ?thesis by simp
qed

lemma get_basics_cols_fail:
  "unit_column T c r \<Longrightarrow> \<not> r < length T - 1 \<Longrightarrow>
     get_basics_cols T (c # cols) = Inl IndexError"
proof -
  assume r: "unit_column T c r" and rl: "\<not> r < length T - 1"
  from r have b: "is_basic_col T c" by (auto simp: is_basic_col_unit)
  from basic_col_read [OF r] rl
  have "first_nonzero (butlast (column T c)) = Inl IndexError" by simp
  with b show ?thesis by simp
qed

lemma get_basics_cols_ok:
  "get_basics_cols T cols = Inr bs \<Longrightarrow>
     map fst bs = filter (is_basic_col T) cols \<and>
     (\<forall>col v. (col, v) \<in> set bs \<longleftrightarrow>
        col \<in> set cols \<and> (\<exists>r. unit_column T col r \<and> v = last (T ! r)))"
proof (induction cols arbitrary: bs)
  case Nil
  then show ?case by simp
next
  case (Cons c cols)
  show ?case
  proof (cases "is_basic_col T c")
    case False
    from Cons.prems get_basics_cols_skip [OF False, of cols]
    have "get_basics_cols T cols = Inr bs" by simp
    from Cons.IH [OF this] have ih1: "map fst bs = filter (is_basic_col T) cols"
      and ih2: "\<And>col v. (col, v) \<in> set bs \<longleftrightarrow>
        col \<in> set cols \<and> (\<exists>r. unit_column T col r \<and> v = last (T ! r))" by blast+
    from False have no: "\<And>r. \<not> unit_column T c r" by (simp add: is_basic_col_unit)
    have "map fst bs = filter (is_basic_col T) (c # cols)" using ih1 False by simp
    moreover have "\<And>col v. (col, v) \<in> set bs \<longleftrightarrow>
        col \<in> set (c # cols) \<and> (\<exists>r. unit_column T col r \<and> v = last (T ! r))"
      using ih2 no by (metis set_ConsD list.set_intros(2))
    ultimately show ?thesis by blast
  next
    case True
    then obtain r where r: "unit_column T c r" by (auto simp: is_basic_col_unit)
    have rl: "r < length T - 1"
    proof (rule ccontr)
      assume "\<not> r < length T - 1"
      from get_basics_cols_fail [OF r this] Cons.prems show False by simp
    qed
    from Cons.prems get_basics_cols_take [OF r rl, of cols] have
      "(case get_basics_cols T cols of Inl e \<Rightarrow> Inl e
        | Inr rest \<Rightarrow> Inr ((c, last (T ! r)) # rest)) = Inr bs"
      by simp
    then obtain rest where
      rest: "get_basics_cols T cols = Inr rest" and bs: "bs = (c, last (T ! r)) # rest"
      by (cases "get_basics_cols T cols") auto
    from Cons.IH [OF rest] have ih1: "map fst rest = filter (is_basic_col T) cols"
      and ih2: "\<And>col v. (col, v) \<in> set rest \<longleftrightarrow>
        col \<in> set cols \<and> (\<exists>r. unit_column T col r \<and> v = last (T ! r))" by blast+
    have m: "map fst bs = filter (is_basic_col T) (c # cols)"
      using bs ih1 True by simp
    have "\<And>col v. (col, v) \<in> set bs \<longleftrightarrow>
        col \<in> set (c # cols) \<and> (\<exists>r. unit_column T col r \<and> v = last (T ! r))"
    proof -
      fix col v
      show "(col, v) \<in> set bs \<longleftrightarrow>
        col \<in> set (c # cols) \<and> (\<exists>r. unit_column T col r \<and> v = last (T ! r))"
      proof
        assume "(col, v) \<in> set bs"
        with bs have "(col = c \<and> v = last (T ! r)) \<or> (col, v) \<in> set rest" by simp
        then show "col \<in> set (c # cols) \<and> (\<exists>r. unit_column T col r \<and> v = last (T ! r))"
        proof
          assume "col = c \<and> v = last (T ! r)"
          with r show ?thesis by auto
        next
          assume "(col, v) \<in> set rest"
          with ih2 [of col v] show ?thesis by simp
        qed
      next
        assume a: "col \<in> set (c # cols) \<and> (\<exists>r. unit_column T col r \<and> v = last (T ! r))"
        then obtain r' where r': "unit_column T col r'" "v = last (T ! r')" by blast
        show "(col, v) \<in> set bs"
        proof (cases "col = c")
          case True
          with r r' have "r' = r" by (simp add: unit_column_unique)
          with True r' bs show ?thesis by simp
        next
          case False
          with a have "col \<in> set cols" by simp
          with r' ih2 [of col v] have "(col, v) \<in> set rest" by blast
          with bs show ?thesis by simp
        qed
      qed
    qed
    with m show ?thesis by blast
  qed
qed

lemma get_basics_cols_raises:
  "(\<exists>e. get_basics_cols T cols = Inl e) \<longleftrightarrow>
     (\<exists>col \<in> set cols. unit_column T col (length T - 1))"
proof (induction cols)
  case Nil
  show ?case by simp
next
  case (Cons c cols)
  show ?case
  proof (cases "is_basic_col T c")
    case False
    then have "\<not> unit_column T c (length T - 1)" by (simp add: is_basic_col_unit)
    with get_basics_cols_skip [OF False, of cols] Cons.IH show ?thesis by simp
  next
    case True
    then obtain r where r: "unit_column T c r" by (auto simp: is_basic_col_unit)
    show ?thesis
    proof (cases "r < length T - 1")
      case rl: True
      have "\<not> unit_column T c (length T - 1)"
      proof
        assume "unit_column T c (length T - 1)"
        from unit_column_unique [OF r this] rl show False by simp
      qed
      moreover have "(\<exists>e. get_basics_cols T (c # cols) = Inl e) \<longleftrightarrow>
                     (\<exists>e. get_basics_cols T cols = Inl e)"
        unfolding get_basics_cols_take [OF r rl]
        by (cases "get_basics_cols T cols") auto
      ultimately show ?thesis using Cons.IH by simp
    next
      case rl: False
      from r have "r < length T" by (simp add: unit_column_def)
      with rl have "r = length T - 1" by simp
      with r have "unit_column T c (length T - 1)" by simp
      with get_basics_cols_fail [OF r rl, of cols] show ?thesis by simp
    qed
  qed
qed

lemma fill_x_sorted:
  "sorted_wrt (<) (map fst bs) \<Longrightarrow> j < n \<Longrightarrow> j < length x \<Longrightarrow>
     fill_x n bs x ! j = (case map_of bs j of Some v \<Rightarrow> v | None \<Rightarrow> x ! j)"
proof (induction bs arbitrary: x)
  case Nil
  show ?case by simp
next
  case (Cons p bs)
  obtain c v where p: "p = (c, v)" by (cases p)
  from Cons.prems p have later: "\<forall>k \<in> set (map fst bs). c < k"
    and srt: "sorted_wrt (<) (map fst bs)" by auto
  show ?case
  proof (cases "c < n")
    case True
    have ih: "fill_x n bs (x[c := v]) ! j =
                (case map_of bs j of Some v \<Rightarrow> v | None \<Rightarrow> x[c := v] ! j)"
      using Cons.IH [OF srt Cons.prems(2), of "x[c := v]"] Cons.prems(3) by simp
    show ?thesis
    proof (cases "j = c")
      case jc: True
      have "c \<notin> fst ` set bs" using later by auto
      then have "map_of bs c = None" by (simp add: map_of_eq_None_iff)
      with ih jc p True Cons.prems(3) show ?thesis by simp
    next
      case False
      with ih p True show ?thesis by (simp split: option.split)
    qed
  next
    case False
    with Cons.prems(2) have jc: "j < c" by simp
    have "j \<notin> fst ` set bs" using later jc by auto
    then have "map_of bs j = None" by (simp add: map_of_eq_None_iff)
    with False p jc show ?thesis by simp
  qed
qed

lemma sorted_filter_upt: "sorted_wrt (<) (filter P [0..<k])"
  by (rule sorted_wrt_filter) (simp add: sorted_wrt_upt)

lemma basic_solution_entry:
  assumes "get_basics T = Inr bs" and "j < n"
  shows "(\<exists>v. (j, v) \<in> set bs \<and> basic_solution n bs ! j = v) \<or>
         ((\<forall>v. (j, v) \<notin> set bs) \<and> basic_solution n bs ! j = 0)"
proof -
  from assms(1) get_basics_cols_ok [of T "[0..<t_cols T - 1]" bs]
  have m: "map fst bs = filter (is_basic_col T) [0..<t_cols T - 1]"
    by (simp add: get_basics_def)
  then have s: "sorted_wrt (<) (map fst bs)" by (simp add: sorted_filter_upt)
  then have d: "distinct (map fst bs)" by (simp add: strict_sorted_iff)
  from fill_x_sorted [OF s assms(2), of "replicate n 0"] assms(2)
  have e: "basic_solution n bs ! j = (case map_of bs j of Some v \<Rightarrow> v | None \<Rightarrow> 0)"
    by (simp add: basic_solution_def split: option.split)
  show ?thesis
  proof (cases "map_of bs j")
    case None
    then have "\<forall>v. (j, v) \<notin> set bs" by (auto simp: map_of_eq_None_iff image_iff)
    with e None show ?thesis by simp
  next
    case (Some v)
    then have "(j, v) \<in> set bs" by (rule map_of_SomeD)
    with e Some show ?thesis by auto
  qed
qed

section \<open>What the basis reader returns\<close>

text \<open>
  \<^verbatim>\<open>_get_basics\<close> on an arbitrary tableau. The tests of line 164 count the ones and
  the zeros of the whole column, so a column is taken exactly when one of its entries is
  1 and every other entry is 0, whatever the row of the 1. Line 166 then looks for the
  row of the 1 above the last row only: the call returns the right-hand side of that
  row, and raises IndexError exactly when some column has its 1 in the last row.
\<close>

lemma get_basics_unit_columns:
  "(\<forall>bs. get_basics T = Inr bs \<longrightarrow>
      (\<forall>col v. (col, v) \<in> set bs \<longleftrightarrow>
         col < t_cols T - 1 \<and> (\<exists>r. unit_column T col r \<and> v = last (T ! r))) \<and>
      (\<forall>j < n. (\<exists>v. (j, v) \<in> set bs \<and> basic_solution n bs ! j = v) \<or>
               ((\<forall>v. (j, v) \<notin> set bs) \<and> basic_solution n bs ! j = 0))) \<and>
   ((\<exists>e. get_basics T = Inl e) \<longleftrightarrow>
      (\<exists>col < t_cols T - 1. unit_column T col (length T - 1)))"
proof (intro conjI allI impI)
  fix bs col v
  assume "get_basics T = Inr bs"
  with get_basics_cols_ok [of T "[0..<t_cols T - 1]" bs]
  show "(col, v) \<in> set bs \<longleftrightarrow>
         col < t_cols T - 1 \<and> (\<exists>r. unit_column T col r \<and> v = last (T ! r))"
    by (simp add: get_basics_def)
next
  fix bs j
  assume "get_basics T = Inr bs" "j < n"
  then show "(\<exists>v. (j, v) \<in> set bs \<and> basic_solution n bs ! j = v) \<or>
               ((\<forall>v. (j, v) \<notin> set bs) \<and> basic_solution n bs ! j = 0)"
    by (rule basic_solution_entry)
next
  show "(\<exists>e. get_basics T = Inl e) \<longleftrightarrow>
      (\<exists>col < t_cols T - 1. unit_column T col (length T - 1))"
    using get_basics_cols_raises [of T "[0..<t_cols T - 1]"]
    by (simp add: get_basics_def Bex_def)
qed

lemma get_basics_unit_columns_example:
  "get_basics [[1, 2, 5], [0, 1, 7], [0, 3, 0]] = Inr [(0, 5)] \<and>
   (\<exists>r. unit_column [[1, 2, 5], [0, 1, 7], [0, 3, 0]] 0 r \<and>
        (5 :: rat) = last ([[1, 2, 5], [0, 1, 7], [0, 3, 0]] ! r)) \<and>
   basic_solution 2 [(0, 5)] ! 0 = 5 \<and> basic_solution 2 [(0, 5)] ! 1 = 0 \<and>
   \<not> (\<exists>col < t_cols [[1, 2, 5], [0, 1, 7], [0, 3, 0]] - 1.
        unit_column [[1, 2, 5], [0, 1, 7], [0, 3, 0]] col 2)"
proof -
  have e: "get_basics [[1, 2, 5], [0, 1, 7], [0, 3, 0]] = Inr [(0, 5)]" by code_simp
  note t = get_basics_unit_columns [of "[[1, 2, 5], [0, 1, 7], [0, 3, 0]]" 2]
  from t [THEN conjunct1, rule_format, OF e, THEN conjunct1, rule_format, of 0 5]
  have b: "\<exists>r. unit_column [[1, 2, 5], [0, 1, 7], [0, 3, 0]] 0 r \<and>
        (5 :: rat) = last ([[1, 2, 5], [0, 1, 7], [0, 3, 0]] ! r)"
    by (simp add: t_cols_def)
  have ne: "\<not> (\<exists>e. get_basics [[1, 2, 5], [0, 1, 7], [0, 3, 0]] = Inl e)"
    by (simp add: e)
  have l: "length ([[1, 2, 5], [0, 1, 7], [0, 3, 0]] :: rat list list) - 1 = 2" by simp
  from t [THEN conjunct2, unfolded l] ne
  have c: "\<not> (\<exists>col < t_cols [[1, 2, 5], [0, 1, 7], [0, 3, 0]] - 1.
        unit_column [[1, 2, 5], [0, 1, 7], [0, 3, 0]] col 2)"
    by (rule_tac notI) (erule_tac notE, erule_tac iffD2)
  have d: "basic_solution 2 [(0, 5)] ! 0 = 5 \<and> basic_solution 2 [(0, 5)] ! 1 = 0"
    by code_simp
  from e b c d show ?thesis by (intro conjI) simp_all
qed

text \<open>
  A column with its 1 in a constraint row and a nonzero entry in the objective row is
  basic in the wording of the specification and is not taken by the reader.
\<close>

lemma objective_row_in_zero_test:
  "spec_basic_column 1 [[1, 5], [2, 0]] 0 \<and> get_basics [[1, 5], [2, 0]] = Inr []"
proof
  show "spec_basic_column 1 [[1, 5], [2, 0]] 0"
    by (simp add: spec_basic_column_def)
  show "get_basics [[1, 5], [2, 0]] = Inr []" by code_simp
qed

section \<open>The first loop over the bounds\<close>

lemma list_update_known: "xs ! i = a \<Longrightarrow> xs[i := a] = xs"
  by (metis list_update_id)

lemma bound_rows_step_effect:
  assumes "i < v_n st" "ncols (v_Aub st) = v_n st"
  shows "\<exists>st'. bound_rows_step i st = Inr st' \<and>
           v_L st' = (v_L st)[i := lower_after (v_L st ! i)] \<and>
           v_U st' = (v_U st)[i := upper_after (v_U st ! i)] \<and>
           rows (v_Aub st') =
             rows (v_Aub st) @ map fst (bound_rows (v_n st) (v_L st) (v_U st) i) \<and>
           v_bub st' = v_bub st @ map snd (bound_rows (v_n st) (v_L st) (v_U st) i) \<and>
           ncols (v_Aub st') = v_n st \<and> v_n st' = v_n st \<and>
           v_status st' =
             (if bad_bounds (v_L st ! i) (v_U st ! i) then - 1 else v_status st) \<and>
           v_Aeq st' = v_Aeq st \<and> v_beq st' = v_beq st \<and> v_cc st' = v_cc st \<and>
           v_f0 st' = v_f0 st \<and> v_have_floor_variable st' = v_have_floor_variable st"
proof (cases "v_L st ! i")
  case MInf
  with assms show ?thesis
    by (cases "v_U st ! i")
       (simp_all add: bound_rows_step_def append_unit_row_def bound_rows_def
          lower_after_def upper_after_def Let_def list_update_known bad_bounds_def)
next
  case PInf
  with assms show ?thesis
    by (cases "v_U st ! i")
       (simp_all add: bound_rows_step_def append_unit_row_def bound_rows_def
          lower_after_def upper_after_def Let_def list_update_known bad_bounds_def)
next
  case (Fin l)
  with assms show ?thesis
    by (cases "v_U st ! i"; cases "0 < l")
       (simp_all add: bound_rows_step_def append_unit_row_def bound_rows_def
          lower_after_def upper_after_def Let_def list_update_known bad_bounds_def)
qed

lemma bound_rows_frame:
  "j \<noteq> i \<Longrightarrow> bound_rows n (L[i := a]) (U[i := b]) j = bound_rows n L U j"
  by (simp add: bound_rows_def)

lemma bound_rows_loop:
  assumes "distinct is" "\<forall>i \<in> set is. i < v_n st" "ncols (v_Aub st) = v_n st"
  shows "\<exists>st'. for_each bound_rows_step is st = Inr st' \<and>
           length (v_L st') = length (v_L st) \<and> length (v_U st') = length (v_U st) \<and>
           (\<forall>j < length (v_L st). v_L st' ! j =
              (if j \<in> set is then lower_after (v_L st ! j) else v_L st ! j)) \<and>
           (\<forall>j < length (v_U st). v_U st' ! j =
              (if j \<in> set is then upper_after (v_U st ! j) else v_U st ! j)) \<and>
           rows (v_Aub st') = rows (v_Aub st) @
              map fst (concat (map (bound_rows (v_n st) (v_L st) (v_U st)) is)) \<and>
           v_bub st' = v_bub st @
              map snd (concat (map (bound_rows (v_n st) (v_L st) (v_U st)) is)) \<and>
           ncols (v_Aub st') = v_n st \<and> v_n st' = v_n st \<and>
           v_status st' =
             (if \<exists>i \<in> set is. bad_bounds (v_L st ! i) (v_U st ! i) then - 1
              else v_status st) \<and>
           v_Aeq st' = v_Aeq st \<and> v_beq st' = v_beq st \<and> v_cc st' = v_cc st \<and>
           v_f0 st' = v_f0 st \<and> v_have_floor_variable st' = v_have_floor_variable st"
  using assms
proof (induction "is" arbitrary: st)
  case Nil
  then show ?case by simp
next
  case (Cons i "is")
  from Cons.prems have i: "i < v_n st" and ni: "i \<notin> set is" and d: "distinct is"
    and r: "\<forall>k \<in> set is. k < v_n st" by auto
  from bound_rows_step_effect [OF i Cons.prems(3)] obtain st1 where
    s1: "bound_rows_step i st = Inr st1"
    and L1: "v_L st1 = (v_L st)[i := lower_after (v_L st ! i)]"
    and U1: "v_U st1 = (v_U st)[i := upper_after (v_U st ! i)]"
    and A1: "rows (v_Aub st1) =
             rows (v_Aub st) @ map fst (bound_rows (v_n st) (v_L st) (v_U st) i)"
    and b1: "v_bub st1 = v_bub st @ map snd (bound_rows (v_n st) (v_L st) (v_U st) i)"
    and c1: "ncols (v_Aub st1) = v_n st" and n1: "v_n st1 = v_n st"
    and s1s: "v_status st1 =
             (if bad_bounds (v_L st ! i) (v_U st ! i) then - 1 else v_status st)"
    and fr1: "v_Aeq st1 = v_Aeq st" "v_beq st1 = v_beq st" "v_cc st1 = v_cc st"
      "v_f0 st1 = v_f0 st" "v_have_floor_variable st1 = v_have_floor_variable st"
    by blast
  from r n1 have r1: "\<forall>k \<in> set is. k < v_n st1" by simp
  from c1 n1 have c1': "ncols (v_Aub st1) = v_n st1" by simp
  from Cons.IH [OF d r1 c1'] obtain st' where
    f: "for_each bound_rows_step is st1 = Inr st'"
    and lL: "length (v_L st') = length (v_L st1)"
    and lU: "length (v_U st') = length (v_U st1)"
    and pL: "\<forall>j < length (v_L st1). v_L st' ! j =
              (if j \<in> set is then lower_after (v_L st1 ! j) else v_L st1 ! j)"
    and pU: "\<forall>j < length (v_U st1). v_U st' ! j =
              (if j \<in> set is then upper_after (v_U st1 ! j) else v_U st1 ! j)"
    and A: "rows (v_Aub st') = rows (v_Aub st1) @
              map fst (concat (map (bound_rows (v_n st1) (v_L st1) (v_U st1)) is))"
    and b: "v_bub st' = v_bub st1 @
              map snd (concat (map (bound_rows (v_n st1) (v_L st1) (v_U st1)) is))"
    and c: "ncols (v_Aub st') = v_n st1" and n: "v_n st' = v_n st1"
    and ss: "v_status st' =
             (if \<exists>k \<in> set is. bad_bounds (v_L st1 ! k) (v_U st1 ! k) then - 1
              else v_status st1)"
    and fr: "v_Aeq st' = v_Aeq st1" "v_beq st' = v_beq st1" "v_cc st' = v_cc st1"
      "v_f0 st' = v_f0 st1" "v_have_floor_variable st' = v_have_floor_variable st1"
    by blast
  have same: "map (bound_rows (v_n st1) (v_L st1) (v_U st1)) is =
              map (bound_rows (v_n st) (v_L st) (v_U st)) is"
  proof (rule map_cong [OF refl])
    fix k assume "k \<in> set is"
    with ni have "k \<noteq> i" by auto
    then show "bound_rows (v_n st1) (v_L st1) (v_U st1) k =
               bound_rows (v_n st) (v_L st) (v_U st) k"
      unfolding n1 L1 U1 by (rule bound_rows_frame)
  qed
  have q1: "for_each bound_rows_step (i # is) st = Inr st'" using s1 f by simp
  have q2: "length (v_L st') = length (v_L st)" using lL L1 by simp
  have q3: "length (v_U st') = length (v_U st)" using lU U1 by simp
  have q4: "\<forall>j < length (v_L st). v_L st' ! j =
              (if j \<in> set (i # is) then lower_after (v_L st ! j) else v_L st ! j)"
  proof (intro allI impI)
    fix j assume j: "j < length (v_L st)"
    with pL L1 have "v_L st' ! j =
        (if j \<in> set is then lower_after (v_L st1 ! j) else v_L st1 ! j)" by simp
    with j ni L1 show "v_L st' ! j =
        (if j \<in> set (i # is) then lower_after (v_L st ! j) else v_L st ! j)"
      by (cases "j = i") auto
  qed
  have q5: "\<forall>j < length (v_U st). v_U st' ! j =
              (if j \<in> set (i # is) then upper_after (v_U st ! j) else v_U st ! j)"
  proof (intro allI impI)
    fix j assume j: "j < length (v_U st)"
    with pU U1 have "v_U st' ! j =
        (if j \<in> set is then upper_after (v_U st1 ! j) else v_U st1 ! j)" by simp
    with j ni U1 show "v_U st' ! j =
        (if j \<in> set (i # is) then upper_after (v_U st ! j) else v_U st ! j)"
      by (cases "j = i") auto
  qed
  have q6: "rows (v_Aub st') = rows (v_Aub st) @
              map fst (concat (map (bound_rows (v_n st) (v_L st) (v_U st)) (i # is)))"
    using A A1 same by simp
  have q7: "v_bub st' = v_bub st @
              map snd (concat (map (bound_rows (v_n st) (v_L st) (v_U st)) (i # is)))"
    using b b1 same by simp
  have q8: "ncols (v_Aub st') = v_n st \<and> v_n st' = v_n st" using c n n1 by simp
  have badsame: "(\<exists>k \<in> set is. bad_bounds (v_L st1 ! k) (v_U st1 ! k)) \<longleftrightarrow>
                 (\<exists>k \<in> set is. bad_bounds (v_L st ! k) (v_U st ! k))"
  proof (rule bex_cong [OF refl])
    fix k assume "k \<in> set is"
    with ni have "k \<noteq> i" by auto
    then show "bad_bounds (v_L st1 ! k) (v_U st1 ! k) = bad_bounds (v_L st ! k) (v_U st ! k)"
      unfolding L1 U1 by simp
  qed
  have q9: "v_status st' =
             (if \<exists>k \<in> set (i # is). bad_bounds (v_L st ! k) (v_U st ! k) then - 1
              else v_status st)"
    unfolding ss badsame s1s by simp
  have q10: "v_Aeq st' = v_Aeq st \<and> v_beq st' = v_beq st \<and> v_cc st' = v_cc st \<and>
           v_f0 st' = v_f0 st \<and> v_have_floor_variable st' = v_have_floor_variable st"
    using fr fr1 by simp
  from q1 q2 q3 q4 q5 q6 q7 q8 q9 q10 show ?case by blast
qed

section \<open>Claim about the rows appended for finite bounds\<close>

text \<open>
  Claim C4, as amended. The first loop of the bounds normalisation, run on a problem
  with \<open>n\<close> variables whose inequality matrix has \<open>n\<close> columns, returns without an
  exception; for each variable with a finite lower bound lb > 0 it appends the row
  \<^verbatim>\<open>-x_i <= -lb_i\<close> and resets the lower bound to 0, and for each finite upper bound
  it appends the row \<^verbatim>\<open>x_i <= ub_i\<close> and resets the upper bound to +inf. A variable
  with a finite lower bound lb <= 0, a negative one included, gets no row for it and
  keeps that lower bound. The rows come in the order of the variables, the lower-bound
  row of a variable before its upper-bound row.
\<close>

theorem finite_bounds_become_rows:
  assumes "ncols (v_Aub st) = v_n st" "length (v_L st) = v_n st" "length (v_U st) = v_n st"
  shows "\<exists>st'. for_each bound_rows_step [0..<v_n st] st = Inr st' \<and>
     v_L st' = map (\<lambda>l. case l of Fin a \<Rightarrow> if 0 < a then Fin 0 else Fin a | _ \<Rightarrow> l) (v_L st) \<and>
     v_U st' = map (\<lambda>u. case u of Fin a \<Rightarrow> PInf | _ \<Rightarrow> u) (v_U st) \<and>
     rows (v_Aub st') = rows (v_Aub st) @
       concat (map (\<lambda>i.
         (case v_L st ! i of
            Fin l \<Rightarrow> if 0 < l then [(replicate (v_n st) 0)[i := - 1]] else []
          | _ \<Rightarrow> []) @
         (case v_U st ! i of Fin u \<Rightarrow> [(replicate (v_n st) 0)[i := 1]] | _ \<Rightarrow> []))
         [0..<v_n st]) \<and>
     v_bub st' = v_bub st @
       concat (map (\<lambda>i.
         (case v_L st ! i of Fin l \<Rightarrow> if 0 < l then [- l] else [] | _ \<Rightarrow> []) @
         (case v_U st ! i of Fin u \<Rightarrow> [u] | _ \<Rightarrow> []))
         [0..<v_n st])"
proof -
  have "distinct [0..<v_n st]" "\<forall>i \<in> set [0..<v_n st]. i < v_n st" by simp_all
  from bound_rows_loop [OF this assms(1)] obtain st' where
    f: "for_each bound_rows_step [0..<v_n st] st = Inr st'"
    and lL: "length (v_L st') = length (v_L st)"
    and lU: "length (v_U st') = length (v_U st)"
    and pL: "\<forall>j < length (v_L st). v_L st' ! j =
              (if j \<in> set [0..<v_n st] then lower_after (v_L st ! j) else v_L st ! j)"
    and pU: "\<forall>j < length (v_U st). v_U st' ! j =
              (if j \<in> set [0..<v_n st] then upper_after (v_U st ! j) else v_U st ! j)"
    and A: "rows (v_Aub st') = rows (v_Aub st) @
              map fst (concat (map (bound_rows (v_n st) (v_L st) (v_U st)) [0..<v_n st]))"
    and b: "v_bub st' = v_bub st @
              map snd (concat (map (bound_rows (v_n st) (v_L st) (v_U st)) [0..<v_n st]))"
    by blast
  have L: "v_L st' = map lower_after (v_L st)"
    using lL pL assms(2) by (intro nth_equalityI) auto
  have U: "v_U st' = map upper_after (v_U st)"
    using lU pU assms(3) by (intro nth_equalityI) auto
  have fstr: "\<And>i. map fst (bound_rows (v_n st) (v_L st) (v_U st) i) =
         (case v_L st ! i of
            Fin l \<Rightarrow> if 0 < l then [(replicate (v_n st) 0)[i := - 1]] else []
          | _ \<Rightarrow> []) @
         (case v_U st ! i of Fin u \<Rightarrow> [(replicate (v_n st) 0)[i := 1]] | _ \<Rightarrow> [])"
    by (simp add: bound_rows_def split: ext.split)
  have sndr: "\<And>i. map snd (bound_rows (v_n st) (v_L st) (v_U st) i) =
         (case v_L st ! i of Fin l \<Rightarrow> if 0 < l then [- l] else [] | _ \<Rightarrow> []) @
         (case v_U st ! i of Fin u \<Rightarrow> [u] | _ \<Rightarrow> [])"
    by (simp add: bound_rows_def split: ext.split)
  have A': "rows (v_Aub st') = rows (v_Aub st) @
       concat (map (\<lambda>i.
         (case v_L st ! i of
            Fin l \<Rightarrow> if 0 < l then [(replicate (v_n st) 0)[i := - 1]] else []
          | _ \<Rightarrow> []) @
         (case v_U st ! i of Fin u \<Rightarrow> [(replicate (v_n st) 0)[i := 1]] | _ \<Rightarrow> []))
         [0..<v_n st])"
    unfolding A map_concat map_map o_def fstr ..
  have b': "v_bub st' = v_bub st @
       concat (map (\<lambda>i.
         (case v_L st ! i of Fin l \<Rightarrow> if 0 < l then [- l] else [] | _ \<Rightarrow> []) @
         (case v_U st ! i of Fin u \<Rightarrow> [u] | _ \<Rightarrow> []))
         [0..<v_n st])"
    unfolding b map_concat map_map o_def sndr ..
  have L': "v_L st' =
      map (\<lambda>l. case l of Fin a \<Rightarrow> if 0 < a then Fin 0 else Fin a | _ \<Rightarrow> l) (v_L st)"
    unfolding L lower_after_def ..
  have U': "v_U st' = map (\<lambda>u. case u of Fin a \<Rightarrow> PInf | _ \<Rightarrow> u) (v_U st)"
    unfolding U upper_after_def ..
  from f L' U' A' b' show ?thesis by blast
qed

theorem finite_bounds_become_rows_witness:
  "ncols \<lparr>ncols = 2, rows = []\<rparr> = 2 \<and>
   length [Fin 2, Fin (- 3)] = 2 \<and> length [Fin 5, PInf] = 2 \<and>
   (\<exists>st'. for_each bound_rows_step [0..<2]
             \<lparr>v_n = 2, v_L = [Fin 2, Fin (- 3)], v_U = [Fin 5, PInf], v_cc = [1, 1],
               v_Aeq = \<lparr>ncols = 2, rows = []\<rparr>, v_beq = [],
               v_Aub = \<lparr>ncols = 2, rows = []\<rparr>, v_bub = [], v_f0 = 0, v_status = 0,
               v_message = [], v_have_floor_variable = False\<rparr> = Inr st' \<and>
          v_L st' = [Fin 0, Fin (- 3)] \<and> v_U st' = [PInf, PInf] \<and>
          rows (v_Aub st') = [[- 1, 0], [1, 0]] \<and> v_bub st' = [- 2, 5])"
proof -
  have u: "[0..<2] = [0, 1]" by (simp add: upt_rec numeral_2_eq_2)
  from finite_bounds_become_rows
    [of "\<lparr>v_n = 2, v_L = [Fin 2, Fin (- 3)], v_U = [Fin 5, PInf], v_cc = [1, 1],
               v_Aeq = \<lparr>ncols = 2, rows = []\<rparr>, v_beq = [],
               v_Aub = \<lparr>ncols = 2, rows = []\<rparr>, v_bub = [], v_f0 = 0, v_status = 0,
               v_message = [], v_have_floor_variable = False\<rparr>"]
  show ?thesis by (simp add: u numeral_2_eq_2)
qed

theorem negative_lower_bound_row_counterexample:
  "map_sum id (\<lambda>st. (rows (v_Aub st), v_bub st, v_L st))
     (standardize [1, 1] None None None None
        (Some [[Some (Fin (- 3)), Some PInf], [Some (Fin 0), Some PInf]])) =
   Inr ([], [], [Fin (- 3), Fin 0])"
  by code_simp

section \<open>Claim about the transition between the phases\<close>




section \<open>The observer calls\<close>

lemma lp_body_call:
  assumes "lp_body n phase True headers tol tableau0 s = Inr (brk, s')"
    and "s_status s = None"
  shows "if brk then s_calls s' = s_calls s \<and> s_nit s' = s_nit s
         else (\<exists>p. s_calls s' = s_calls s @ [p] \<and> p_tableau p = s_tableau s \<and>
                 p_iter p = s_nit s \<and> p_phase p = phase \<and>
                 p_complete p = (s_status s' \<noteq> None \<and> phase = 2) \<and>
                 (s_status s' = None \<longrightarrow>
                    s_tableau s' = pivot (s_tableau s) (fst (p_pivot p)) (snd (p_pivot p)) \<and>
                    s_nit s' = s_nit s + 1) \<and>
                 (s_status s' \<noteq> None \<longrightarrow> s_status s' = Some 0 \<and> s_nit s' = s_nit s))"
  using assms
  by (auto simp: lp_body_def callback_step_def Let_def split: if_splits sum.splits)

lemma calls_chain_Cons:
  "p_tableau p = T \<Longrightarrow> p_iter p = nit \<Longrightarrow> p_phase p = phase \<Longrightarrow> \<not> p_complete p \<Longrightarrow>
   calls_chain phase (pivot T (fst (p_pivot p)) (snd (p_pivot p))) (nit + 1) cs \<Longrightarrow>
     calls_chain phase T nit (p # cs)"
  by (cases cs) simp_all

lemma lp_loop_calls:
  "lp_loop n phase True headers tol tableau0 maxiter s = Inr (s', st, msg) \<Longrightarrow>
   s_status s = None \<Longrightarrow>
     \<exists>new. s_calls s' = s_calls s @ new \<and>
           calls_chain phase (s_tableau s) (s_nit s) new \<and>
           s_nit s \<le> s_nit s' \<and>
           int (length new) = s_nit s' - s_nit s + (if st = 0 then 1 else 0) \<and>
           (new \<noteq> [] \<longrightarrow> (p_complete (last new) \<longleftrightarrow> phase = 2 \<and> st = 0))"
proof (induction n phase "True" headers tol tableau0 maxiter s rule: lp_loop.induct)
  case (1 n phase headers tol tableau0 maxiter s)
  note st0 = "1.prems"(2)
  show ?case
  proof (cases "s_nit s < maxiter")
    case False
    then have "\<not> (s_nit s < maxiter \<and> s_status s = None)" by simp
    from lp_loop_stop [OF this, of n phase True headers tol tableau0] "1.prems"(1) False
    have "s' = s" "st = 1" by auto
    then show ?thesis by simp
  next
    case lt: True
    show ?thesis
    proof (cases "lp_body n phase True headers tol tableau0 s")
      case (Inl e)
      from lp_loop_raise [OF lt st0 Inl] "1.prems"(1) show ?thesis by simp
    next
      case (Inr r)
      obtain brk s1 where r: "r = (brk, s1)" by (cases r)
      with Inr have body: "lp_body n phase True headers tol tableau0 s = Inr (brk, s1)"
        by simp
      note call = lp_body_call [OF body st0]
      show ?thesis
      proof (cases brk)
        case True
        with body have b: "lp_body n phase True headers tol tableau0 s = Inr (True, s1)"
          by simp
        from lp_loop_break [OF lt st0 b] "1.prems"(1) have "s' = s1" "st = 3" by auto
        with call True show ?thesis by simp
      next
        case False
        with body have b: "lp_body n phase True headers tol tableau0 s = Inr (False, s1)"
          by simp
        from lp_loop_continue [OF lt st0 b] "1.prems"(1)
        have next_run: "lp_loop n phase True headers tol tableau0 maxiter s1 = Inr (s', st, msg)"
          by simp
        from call False have "\<exists>p. s_calls s1 = s_calls s @ [p] \<and> p_tableau p = s_tableau s \<and>
                 p_iter p = s_nit s \<and> p_phase p = phase \<and>
                 p_complete p = (s_status s1 \<noteq> None \<and> phase = 2) \<and>
                 (s_status s1 = None \<longrightarrow>
                    s_tableau s1 = pivot (s_tableau s) (fst (p_pivot p)) (snd (p_pivot p)) \<and>
                    s_nit s1 = s_nit s + 1) \<and>
                 (s_status s1 \<noteq> None \<longrightarrow> s_status s1 = Some 0 \<and> s_nit s1 = s_nit s)"
          by (simp only: if_False)
        then obtain p where
          c1: "s_calls s1 = s_calls s @ [p]" and c2: "p_tableau p = s_tableau s"
          and c3: "p_iter p = s_nit s" and c4: "p_phase p = phase"
          and c5: "p_complete p = (s_status s1 \<noteq> None \<and> phase = 2)"
          and c6: "s_status s1 = None \<longrightarrow>
                    s_tableau s1 = pivot (s_tableau s) (fst (p_pivot p)) (snd (p_pivot p)) \<and>
                    s_nit s1 = s_nit s + 1"
          and c7: "s_status s1 \<noteq> None \<longrightarrow> s_status s1 = Some 0 \<and> s_nit s1 = s_nit s"
          by (elim exE conjE)
        show ?thesis
        proof (cases "s_status s1")
          case (Some a)
          then have "\<not> (s_nit s1 < maxiter \<and> s_status s1 = None)" by simp
          from lp_loop_stop [OF this, of n phase True headers tol tableau0] next_run c7 Some lt
          have e: "s' = s1" "st = 0" by (auto split: if_splits)
          have "s_calls s' = s_calls s @ [p]" using e c1 by simp
          moreover have "calls_chain phase (s_tableau s) (s_nit s) [p]"
            using c2 c3 c4 by simp
          moreover have "s_nit s \<le> s_nit s'" using e c7 Some by simp
          moreover have "int (length [p]) = s_nit s' - s_nit s + (if st = 0 then 1 else 0)"
            using e c7 Some by simp
          moreover have "p_complete (last [p]) \<longleftrightarrow> phase = 2 \<and> st = 0"
            using e c5 Some by simp
          ultimately show ?thesis by blast
        next
          case None
          from "1.hyps" [OF _ Inr r [symmetric] False next_run None] lt st0
          obtain new1 where
            i1: "s_calls s' = s_calls s1 @ new1"
            and i2: "calls_chain phase (s_tableau s1) (s_nit s1) new1"
            and i3: "s_nit s1 \<le> s_nit s'"
            and i4: "int (length new1) = s_nit s' - s_nit s1 + (if st = 0 then 1 else 0)"
            and i5: "new1 \<noteq> [] \<longrightarrow> (p_complete (last new1) \<longleftrightarrow> phase = 2 \<and> st = 0)"
            by auto
          from c6 None have t1: "s_tableau s1 =
              pivot (s_tableau s) (fst (p_pivot p)) (snd (p_pivot p))"
            and n1: "s_nit s1 = s_nit s + 1" by auto
          from c5 None have nc: "\<not> p_complete p" by simp
          have "s_calls s' = s_calls s @ (p # new1)" using i1 c1 by simp
          moreover have "calls_chain phase (s_tableau s) (s_nit s) (p # new1)"
            using c2 c3 c4 nc i2 t1 n1 by (intro calls_chain_Cons) simp_all
          moreover have "s_nit s \<le> s_nit s'" using i3 n1 by simp
          moreover have "int (length (p # new1)) =
                           s_nit s' - s_nit s + (if st = 0 then 1 else 0)"
            using i4 n1 by simp
          moreover have "p_complete (last (p # new1)) \<longleftrightarrow> phase = 2 \<and> st = 0"
          proof (cases "new1 = []")
            case True
            with i4 i3 have "st \<noteq> 0" by (auto split: if_splits)
            with True nc show ?thesis by simp
          next
            case False
            with i5 show ?thesis by simp
          qed
          ultimately show ?thesis by blast
        qed
      qed
    qed
  qed
qed

lemma calls_chain_iter:
  "calls_chain phase T nit cs \<Longrightarrow> k < length cs \<Longrightarrow>
     p_iter (cs ! k) = nit + int k \<and> p_phase (cs ! k) = phase"
proof (induction phase T nit cs arbitrary: k rule: calls_chain.induct)
  case (1 phase T nit)
  then show ?case by simp
next
  case (2 phase T nit p)
  then show ?case by simp
next
  case (3 phase T nit p q cs)
  show ?case
  proof (cases k)
    case 0
    with "3.prems" show ?thesis by simp
  next
    case (Suc j)
    with "3.prems" have "j < length (q # cs)" by simp
    from "3.IH" [OF _ this] "3.prems"(1) Suc show ?thesis by simp
  qed
qed

lemma calls_chain_first: "calls_chain phase T nit cs \<Longrightarrow> cs \<noteq> [] \<Longrightarrow> p_tableau (cs ! 0) = T"
  by (induction phase T nit cs rule: calls_chain.induct) simp_all

lemma calls_chain_step:
  "calls_chain phase T nit cs \<Longrightarrow> Suc k < length cs \<Longrightarrow>
     \<not> p_complete (cs ! k) \<and>
     p_tableau (cs ! Suc k) =
       pivot (p_tableau (cs ! k)) (fst (p_pivot (cs ! k))) (snd (p_pivot (cs ! k)))"
proof (induction phase T nit cs arbitrary: k rule: calls_chain.induct)
  case (1 phase T nit)
  then show ?case by simp
next
  case (2 phase T nit p)
  then show ?case by simp
next
  case (3 phase T nit p q cs)
  show ?case
  proof (cases k)
    case 0
    from "3.prems"(1) have "calls_chain phase (pivot T (fst (p_pivot p)) (snd (p_pivot p)))
        (nit + 1) (q # cs)" by simp
    from calls_chain_first [OF this] "3.prems"(1) 0 show ?thesis by simp
  next
    case (Suc j)
    with "3.prems" have "Suc j < length (q # cs)" by simp
    from "3.IH" [OF _ this] "3.prems"(1) Suc show ?thesis by simp
  qed
qed

section \<open>Claim about the observer\<close>

text \<open>
  Claim C8, as amended. When an observer is supplied and \<^verbatim>\<open>lpsimplex\<close> returns, in
  phase 1 as in phase 2, the observer has been called once in every pass that applied
  a pivot, and once more in the pass that found the optimality condition. Call \<open>k\<close>
  carries the iteration count \<open>nit0 + k\<close> and the phase; the first call carries the
  tableau the engine was given, and every later call carries the tableau of the call
  before it pivoted at the position that call announced, so each call is made before
  the pivot of its pass is applied. The completion flag is false on every call of
  phase 1 and on every call that is followed by another; in a run that returns status
  0 or 1 it is true exactly on the last call of a phase 2 run that returns status 0.
  What the pass that ends in status 3 does with the observer, and the flag of the last
  call of such a run in phase 2, are left open.
\<close>

theorem observer_called_before_each_pivot:
  assumes "lpsimplex T n n_slack n_artificial maxiter phase True tol nit0 = Inr out"
  shows "o_nit out - nit0 \<le> int (length (o_calls out)) \<and>
         (o_status out \<noteq> 3 \<longrightarrow>
            int (length (o_calls out)) =
              o_nit out - nit0 + (if o_status out = 0 then 1 else 0)) \<and>
         (\<forall>k < length (o_calls out).
             p_iter (o_calls out ! k) = nit0 + int k \<and> p_phase (o_calls out ! k) = phase \<and>
             (phase \<noteq> 2 \<longrightarrow> \<not> p_complete (o_calls out ! k)) \<and>
             (Suc k < length (o_calls out) \<longrightarrow> \<not> p_complete (o_calls out ! k)) \<and>
             (o_status out \<noteq> 3 \<longrightarrow>
                (p_complete (o_calls out ! k) \<longleftrightarrow>
                   phase = 2 \<and> o_status out = 0 \<and> Suc k = length (o_calls out)))) \<and>
         (o_calls out \<noteq> [] \<longrightarrow> p_tableau (o_calls out ! 0) = T) \<and>
         (\<forall>k. Suc k < length (o_calls out) \<longrightarrow>
             p_tableau (o_calls out ! Suc k) =
               pivot (p_tableau (o_calls out ! k)) (fst (p_pivot (o_calls out ! k)))
                 (snd (p_pivot (o_calls out ! k))))"
proof -
  from assms obtain headers s st msg where
    l: "lp_loop n phase True headers tol T maxiter
          \<lparr>s_tableau = T, s_nit = nit0, s_status = None, s_cycle = 0, s_calls = []\<rparr>
        = Inr (s, st, msg)"
    and o: "o_status out = st" "o_calls out = s_calls s" "o_nit out = s_nit s"
    unfolding lpsimplex_def Let_def
    by (auto split: sum.splits prod.splits)
  from lp_loop_calls [OF l] obtain new where
    n1: "s_calls s = new" and n2: "calls_chain phase T nit0 new"
    and n4: "int (length new) = s_nit s - nit0 + (if st = 0 then 1 else 0)"
    and n5: "new \<noteq> [] \<longrightarrow> (p_complete (last new) \<longleftrightarrow> phase = 2 \<and> st = 0)"
    by auto
  have cs: "o_calls out = new" using o n1 by simp
  have a0: "o_nit out - nit0 \<le> int (length (o_calls out))"
    using n4 o cs by simp
  have a: "o_status out \<noteq> 3 \<longrightarrow>
             int (length (o_calls out)) =
               o_nit out - nit0 + (if o_status out = 0 then 1 else 0)"
    using n4 o cs by simp
  have b: "\<forall>k < length (o_calls out).
             p_iter (o_calls out ! k) = nit0 + int k \<and> p_phase (o_calls out ! k) = phase \<and>
             (phase \<noteq> 2 \<longrightarrow> \<not> p_complete (o_calls out ! k)) \<and>
             (Suc k < length (o_calls out) \<longrightarrow> \<not> p_complete (o_calls out ! k)) \<and>
             (o_status out \<noteq> 3 \<longrightarrow>
                (p_complete (o_calls out ! k) \<longleftrightarrow>
                   phase = 2 \<and> o_status out = 0 \<and> Suc k = length (o_calls out)))"
  proof (intro allI impI)
    fix k assume k: "k < length (o_calls out)"
    with cs have k': "k < length new" by simp
    note i = calls_chain_iter [OF n2 k']
    have "p_complete (new ! k) \<longleftrightarrow> phase = 2 \<and> st = 0 \<and> Suc k = length new"
    proof (cases "Suc k = length new")
      case True
      with k' have ne: "new \<noteq> []" by auto
      from True have "length new - 1 = k" by simp
      with last_conv_nth [OF ne] have "last new = new ! k" by simp
      note ne this
      with n5 True show ?thesis by simp
    next
      case False
      with k' have "Suc k < length new" by simp
      from calls_chain_step [OF n2 this] False show ?thesis by simp
    qed
    with i cs o show "p_iter (o_calls out ! k) = nit0 + int k \<and>
             p_phase (o_calls out ! k) = phase \<and>
             (phase \<noteq> 2 \<longrightarrow> \<not> p_complete (o_calls out ! k)) \<and>
             (Suc k < length (o_calls out) \<longrightarrow> \<not> p_complete (o_calls out ! k)) \<and>
             (o_status out \<noteq> 3 \<longrightarrow>
                (p_complete (o_calls out ! k) \<longleftrightarrow>
                   phase = 2 \<and> o_status out = 0 \<and> Suc k = length (o_calls out)))"
      by simp
  qed
  have c: "o_calls out \<noteq> [] \<longrightarrow> p_tableau (o_calls out ! 0) = T"
    using calls_chain_first [OF n2] cs by simp
  have d: "\<forall>k. Suc k < length (o_calls out) \<longrightarrow>
             p_tableau (o_calls out ! Suc k) =
               pivot (p_tableau (o_calls out ! k)) (fst (p_pivot (o_calls out ! k)))
                 (snd (p_pivot (o_calls out ! k)))"
    using calls_chain_step [OF n2] cs by simp
  from a0 a b c d show ?thesis by (intro conjI)
qed

theorem observer_called_before_each_pivot_witness:
  "\<exists>out. lpsimplex [[1, 1, 1], [0, - 1, - 1]] 1 1 1 1000 2 True (1 / 10 ^ 12) 1 = Inr out \<and>
         o_status out = 0 \<and> o_nit out = 2 \<and> length (o_calls out) = 2 \<and>
         \<not> p_complete (o_calls out ! 0) \<and> p_complete (o_calls out ! 1) \<and>
         p_tableau (o_calls out ! 0) = [[1, 1, 1], [0, - 1, - 1]]"
proof -
  have "map_sum id (\<lambda>out. (o_nit out, o_status out))
          (lpsimplex [[1, 1, 1], [0, - 1, - 1]] 1 1 1 1000 2 True (1 / 10 ^ 12) 1) =
        Inr (2, 0)"
    by code_simp
  then obtain out where
    e: "lpsimplex [[1, 1, 1], [0, - 1, - 1]] 1 1 1 1000 2 True (1 / 10 ^ 12) 1 = Inr out"
    and n: "o_nit out = 2" and s: "o_status out = 0"
    by (cases "lpsimplex [[1, 1, 1], [0, - 1, - 1]] 1 1 1 1000 2 True (1 / 10 ^ 12) 1") auto
  note t = observer_called_before_each_pivot [OF e]
  from t n s have len: "length (o_calls out) = 2" by simp
  from t len s have c0: "\<not> p_complete (o_calls out ! 0)" by simp
  from t len s have c1: "p_complete (o_calls out ! 1)" by simp
  from t len have t0: "p_tableau (o_calls out ! 0) = [[1, 1, 1], [0, - 1, - 1]]" by auto
  from e n s len c0 c1 t0 show ?thesis by blast
qed

theorem phase_one_completion_flag_counterexample:
  "map_sum id (\<lambda>out. (o_status out, map p_phase (o_calls out), map p_complete (o_calls out)))
     (lpsimplex [[1, 1, 1, 1], [1, 0, 0, 0], [- 1, - 1, 0, - 1]] 1 1 1 1000 1 True
        (1 / 10 ^ 12) 0) =
   Inr (0, [1, 1], [False, False])"
  by code_simp

section \<open>The standardisation on invalid input\<close>

lemma for_each_identity:
  "(\<forall>i \<in> set is. body i st = Inr st) \<Longrightarrow> for_each body is st = Inr st"
  by (induction "is") simp_all

lemma for_each_invariant:
  assumes "\<And>i s. i \<in> set is \<Longrightarrow> P s \<Longrightarrow> \<exists>s'. body i s = Inr s' \<and> P s'"
    and "P st"
  shows "\<exists>st'. for_each body is st = Inr st' \<and> P st'"
  using assms
proof (induction "is" arbitrary: st)
  case Nil
  then show ?case by simp
next
  case (Cons i "is")
  from Cons.prems(1) [of i st] Cons.prems(2) obtain s1 where
    s1: "body i st = Inr s1" "P s1" by auto
  have "\<exists>st'. for_each body is s1 = Inr st' \<and> P st'"
  proof (rule Cons.IH)
    fix k s assume "k \<in> set is" "P s"
    then show "\<exists>s'. body k s = Inr s' \<and> P s'" using Cons.prems(1) [of k s] by simp
  next
    show "P s1" by (rule s1(2))
  qed
  with s1(1) show ?case by simp
qed

lemma bound_rows_step_default:
  "v_L st ! i = Fin 0 \<Longrightarrow> v_U st ! i = PInf \<Longrightarrow> bound_rows_step i st = Inr st"
  by (simp add: bound_rows_step_def)

lemma shift_step_default:
  "v_L st ! i = Fin 0 \<Longrightarrow> v_U st ! i = PInf \<Longrightarrow> shift_step i st = Inr st"
  by (simp add: shift_step_def)

lemma fields_if_status:
  "v_Aeq (if c then st\<lparr>v_status := a, v_message := m\<rparr> else st) = v_Aeq st"
  "v_Aub (if c then st\<lparr>v_status := a, v_message := m\<rparr> else st) = v_Aub st"
  "v_beq (if c then st\<lparr>v_status := a, v_message := m\<rparr> else st) = v_beq st"
  "v_bub (if c then st\<lparr>v_status := a, v_message := m\<rparr> else st) = v_bub st"
  "v_cc (if c then st\<lparr>v_status := a, v_message := m\<rparr> else st) = v_cc st"
  "v_n (if c then st\<lparr>v_status := a, v_message := m\<rparr> else st) = v_n st"
  "v_status (if c then st\<lparr>v_status := a, v_message := m\<rparr> else st) =
     (if c then a else v_status st)"
  by simp_all

lemma check_shapes_status:
  "v_status (check_shapes st) =
     (if length (rows (v_Aeq st)) \<noteq> length (v_beq st) \<or>
         length (rows (v_Aub st)) \<noteq> length (v_bub st) \<or>
         (0 < ncols (v_Aeq st) \<and> ncols (v_Aeq st) \<noteq> v_n st) \<or>
         (0 < ncols (v_Aub st) \<and> ncols (v_Aub st) \<noteq> v_n st)
      then - 1 else v_status st)"
  unfolding check_shapes_def Let_def fields_if_status by simp

lemma check_shapes_cc: "v_cc (check_shapes st) = v_cc st"
  unfolding check_shapes_def Let_def fields_if_status ..

lemma shapes_agree_status [simp]:
  "shapes_agree (st\<lparr>v_status := a, v_message := m\<rparr>) = shapes_agree st"
  by (simp add: shapes_agree_def)

lemma sub_scaled_column_ok:
  "i < ncols A \<Longrightarrow> length (rows A) = length b \<Longrightarrow>
     \<exists>b'. sub_scaled_column b A i l = Inr b' \<and> length b' = length b"
  by (simp add: sub_scaled_column_def column_def Let_def)

lemma sub_column_from_first_ok:
  "i < ncols A \<Longrightarrow>
     \<exists>A'. sub_column_from_first A i = Inr A' \<and> ncols A' = ncols A \<and>
          length (rows A') = length (rows A)"
  by (simp add: sub_column_from_first_def)

lemma shift_step_end:
  "(case Inr st of Inl e \<Rightarrow> Inl e
    | Inr st \<Rightarrow>
        Inr (if isinf (v_U st ! i) \<and> ext_less (v_U st ! i) (Fin 0)
             then st\<lparr>v_status := - 1,
                     v_message := ''Invalid input.  Upper bound may not be -inf.''\<rparr>
             else st)) =
   Inr (if isinf (v_U st ! i) \<and> ext_less (v_U st ! i) (Fin 0)
        then st\<lparr>v_status := - 1,
                v_message := ''Invalid input.  Upper bound may not be -inf.''\<rparr>
        else st)"
  by simp

lemma shift_step_shapes:
  assumes "shapes_agree st" "i < v_n st" "v_status st = - 1"
  shows "\<exists>st'. shift_step i st = Inr st' \<and> shapes_agree st' \<and> v_n st' = v_n st \<and>
               v_status st' = - 1"
proof -
  from assms(1,2) have ie: "i < ncols (v_Aeq st)" and iu: "i < ncols (v_Aub st)"
    and re: "length (rows (v_Aeq st)) = length (v_beq st)"
    and ru: "length (rows (v_Aub st)) = length (v_bub st)"
    by (simp_all add: shapes_agree_def)
  have "\<exists>s2. (if ext_less (v_L st ! i) (Fin 0) then
              (case v_L st ! i of
                 Fin l \<Rightarrow>
                   (case sub_scaled_column (v_beq st) (v_Aeq st) i l of
                      Inl e \<Rightarrow> Inl e
                    | Inr beq \<Rightarrow>
                       (case sub_scaled_column (v_bub st) (v_Aub st) i l of
                          Inl e \<Rightarrow> Inl e
                        | Inr bub \<Rightarrow>
                            Inr (st\<lparr>v_beq := beq, v_bub := bub,
                                    v_f0 := v_f0 st - v_cc st ! i * l\<rparr>)))
               | _ \<Rightarrow>
                   (case sub_column_from_first (v_Aeq st) i of
                      Inl e \<Rightarrow> Inl e
                    | Inr Aeq \<Rightarrow>
                       (case sub_column_from_first (v_Aub st) i of
                          Inl e \<Rightarrow> Inl e
                        | Inr Aub \<Rightarrow>
                            Inr (st\<lparr>v_Aeq := Aeq, v_Aub := Aub,
                                    v_cc := (v_cc st)[0 := v_cc st ! 0 - v_cc st ! i]\<rparr>))))
            else Inr st) = Inr s2 \<and> shapes_agree s2 \<and> v_n s2 = v_n st \<and> v_status s2 = - 1"
  proof (cases "ext_less (v_L st ! i) (Fin 0)")
    case False
    with assms show ?thesis by simp
  next
    case True
    show ?thesis
    proof (cases "v_L st ! i")
      case (Fin l)
      from sub_scaled_column_ok [OF ie re, of l] obtain beq where
        b1: "sub_scaled_column (v_beq st) (v_Aeq st) i l = Inr beq"
        "length beq = length (v_beq st)" by blast
      from sub_scaled_column_ok [OF iu ru, of l] obtain bub where
        b2: "sub_scaled_column (v_bub st) (v_Aub st) i l = Inr bub"
        "length bub = length (v_bub st)" by blast
      have "shapes_agree (st\<lparr>v_beq := beq, v_bub := bub,
                               v_f0 := v_f0 st - v_cc st ! i * l\<rparr>)"
        using assms(1) b1(2) b2(2) by (simp add: shapes_agree_def)
      with True Fin b1(1) b2(1) assms(3) show ?thesis by simp
    next
      case MInf
      from sub_column_from_first_ok [OF ie] obtain Aeq where
        a1: "sub_column_from_first (v_Aeq st) i = Inr Aeq" "ncols Aeq = ncols (v_Aeq st)"
        "length (rows Aeq) = length (rows (v_Aeq st))" by blast
      from sub_column_from_first_ok [OF iu] obtain Aub where
        a2: "sub_column_from_first (v_Aub st) i = Inr Aub" "ncols Aub = ncols (v_Aub st)"
        "length (rows Aub) = length (rows (v_Aub st))" by blast
      have "shapes_agree (st\<lparr>v_Aeq := Aeq, v_Aub := Aub,
                               v_cc := (v_cc st)[0 := v_cc st ! 0 - v_cc st ! i]\<rparr>)"
        using assms(1) a1(2,3) a2(2,3) by (simp add: shapes_agree_def)
      with True MInf a1(1) a2(1) assms(3) show ?thesis by simp
    next
      case PInf
      with True show ?thesis by simp
    qed
  qed
  then obtain s2 where s2: "(if ext_less (v_L st ! i) (Fin 0) then
              (case v_L st ! i of
                 Fin l \<Rightarrow>
                   (case sub_scaled_column (v_beq st) (v_Aeq st) i l of
                      Inl e \<Rightarrow> Inl e
                    | Inr beq \<Rightarrow>
                       (case sub_scaled_column (v_bub st) (v_Aub st) i l of
                          Inl e \<Rightarrow> Inl e
                        | Inr bub \<Rightarrow>
                            Inr (st\<lparr>v_beq := beq, v_bub := bub,
                                    v_f0 := v_f0 st - v_cc st ! i * l\<rparr>)))
               | _ \<Rightarrow>
                   (case sub_column_from_first (v_Aeq st) i of
                      Inl e \<Rightarrow> Inl e
                    | Inr Aeq \<Rightarrow>
                       (case sub_column_from_first (v_Aub st) i of
                          Inl e \<Rightarrow> Inl e
                        | Inr Aub \<Rightarrow>
                            Inr (st\<lparr>v_Aeq := Aeq, v_Aub := Aub,
                                    v_cc := (v_cc st)[0 := v_cc st ! 0 - v_cc st ! i]\<rparr>))))
            else Inr st) = Inr s2"
    and p: "shapes_agree s2" "v_n s2 = v_n st" "v_status s2 = - 1" by blast
  have "shift_step i st =
     Inr (if isinf (v_U s2 ! i) \<and> ext_less (v_U s2 ! i) (Fin 0)
        then s2\<lparr>v_status := - 1,
                v_message := ''Invalid input.  Upper bound may not be -inf.''\<rparr>
        else s2)"
    unfolding shift_step_def s2 by (rule shift_step_end)
  with p show ?thesis by simp
qed

lemma shift_loop_invalid:
  assumes "shapes_agree st" "v_status st = - 1"
  shows "\<exists>st'. for_each shift_step [0..<v_n st] st = Inr st' \<and> shapes_agree st' \<and>
               v_n st' = v_n st \<and> v_status st' = - 1"
proof -
  have "\<exists>st'. for_each shift_step [0..<v_n st] st = Inr st' \<and>
          (shapes_agree st' \<and> v_n st' = v_n st \<and> v_status st' = - 1)"
  proof (rule for_each_invariant)
    fix i s
    assume "i \<in> set [0..<v_n st]"
      and "shapes_agree s \<and> v_n s = v_n st \<and> v_status s = - 1"
    then have "shapes_agree s" "i < v_n s" "v_status s = - 1" and n: "v_n s = v_n st"
      by simp_all
    from shift_step_shapes [OF this(1-3)] n
    show "\<exists>s'. shift_step i s = Inr s' \<and>
            (shapes_agree s' \<and> v_n s' = v_n st \<and> v_status s' = - 1)" by auto
  next
    from assms show "shapes_agree st \<and> v_n st = v_n st \<and> v_status st = - 1" by simp
  qed
  then show ?thesis by simp
qed

lemma bound_then_shift_invalid:
  assumes sh: "shapes_agree st" and bad: "\<exists>i < v_n st. bad_bounds (v_L st ! i) (v_U st ! i)"
  shows "\<exists>st1 st2. for_each bound_rows_step [0..<v_n st] st = Inr st1 \<and>
           for_each shift_step [0..<v_n st1] st1 = Inr st2 \<and>
           v_status (check_shapes st2) = - 1 \<and> length (v_cc (check_shapes st2)) = v_n st"
proof -
  have "distinct [0..<v_n st]" "\<forall>i \<in> set [0..<v_n st]. i < v_n st" by simp_all
  moreover from sh have "ncols (v_Aub st) = v_n st" by (simp add: shapes_agree_def)
  ultimately obtain st1 where
    f: "for_each bound_rows_step [0..<v_n st] st = Inr st1"
    and lL: "length (v_L st1) = length (v_L st)"
    and lU: "length (v_U st1) = length (v_U st)"
    and A: "rows (v_Aub st1) = rows (v_Aub st) @
              map fst (concat (map (bound_rows (v_n st) (v_L st) (v_U st)) [0..<v_n st]))"
    and b: "v_bub st1 = v_bub st @
              map snd (concat (map (bound_rows (v_n st) (v_L st) (v_U st)) [0..<v_n st]))"
    and c: "ncols (v_Aub st1) = v_n st" and n: "v_n st1 = v_n st"
    and ss: "v_status st1 =
             (if \<exists>i \<in> set [0..<v_n st]. bad_bounds (v_L st ! i) (v_U st ! i) then - 1
              else v_status st)"
    and fr: "v_Aeq st1 = v_Aeq st" "v_beq st1 = v_beq st" "v_cc st1 = v_cc st"
    using bound_rows_loop [of "[0..<v_n st]" st] by blast
  from bad ss have s1: "v_status st1 = - 1" by auto
  have sh1: "shapes_agree st1"
    using sh lL lU c n fr unfolding shapes_agree_def A b by simp
  from shift_loop_invalid [OF sh1 s1] obtain st2 where
    g: "for_each shift_step [0..<v_n st1] st1 = Inr st2" and sh2: "shapes_agree st2"
    and n2: "v_n st2 = v_n st1" and s2: "v_status st2 = - 1" by blast
  have "v_status (check_shapes st2) = - 1" using s2 by (simp add: check_shapes_status)
  moreover have "length (v_cc (check_shapes st2)) = v_n st"
    using sh2 n2 n by (simp add: check_shapes_cc shapes_agree_def)
  ultimately show ?thesis using f g by blast
qed

lemma read_pairs_all:
  assumes "distinct is" "\<forall>i \<in> set is. length (bs ! i) = 2" "length (bs ! 0) = 2"
  shows "\<exists>L' U'. read_pairs bs is L U = (False, L', U') \<and>
           length L' = length L \<and> length U' = length U \<and>
           (\<forall>j < length L. L' ! j = (if j \<in> set is then lower_of (bs ! j) else L ! j)) \<and>
           (\<forall>j < length U. U' ! j = (if j \<in> set is then upper_of (bs ! j) else U ! j))"
  using assms
proof (induction "is" arbitrary: L U)
  case Nil
  then show ?case by simp
next
  case (Cons i "is")
  from Cons.prems have ni: "i \<notin> set is" and d: "distinct is"
    and r: "\<forall>k \<in> set is. length (bs ! k) = 2" and li: "length (bs ! i) = 2" by auto
  from li obtain lb ub where p: "bs ! i = [lb, ub]"
    by (cases "bs ! i"; cases "tl (bs ! i)") auto
  define L1 where "L1 = L[i := lower_of (bs ! i)]"
  define U1 where "U1 = U[i := upper_of (bs ! i)]"
  have step: "read_pairs bs (i # is) L U = read_pairs bs is L1 U1"
    using Cons.prems(3) p by (simp add: L1_def U1_def lower_of_def upper_of_def)
  from Cons.IH [OF d r Cons.prems(3), of L1 U1] obtain L' U' where
    e: "read_pairs bs is L1 U1 = (False, L', U')"
    and l1: "length L' = length L1" and l2: "length U' = length U1"
    and pL: "\<forall>j < length L1. L' ! j = (if j \<in> set is then lower_of (bs ! j) else L1 ! j)"
    and pU: "\<forall>j < length U1. U' ! j = (if j \<in> set is then upper_of (bs ! j) else U1 ! j)"
    by blast
  have q1: "read_pairs bs (i # is) L U = (False, L', U')" using step e by simp
  have q2: "length L' = length L" "length U' = length U"
    using l1 l2 by (simp_all add: L1_def U1_def)
  have q3: "\<forall>j < length L. L' ! j =
              (if j \<in> set (i # is) then lower_of (bs ! j) else L ! j)"
  proof (intro allI impI)
    fix j assume j: "j < length L"
    with pL have "L' ! j = (if j \<in> set is then lower_of (bs ! j) else L1 ! j)"
      by (simp add: L1_def)
    with j ni show "L' ! j = (if j \<in> set (i # is) then lower_of (bs ! j) else L ! j)"
      by (cases "j = i") (auto simp: L1_def)
  qed
  have q4: "\<forall>j < length U. U' ! j =
              (if j \<in> set (i # is) then upper_of (bs ! j) else U ! j)"
  proof (intro allI impI)
    fix j assume j: "j < length U"
    with pU have "U' ! j = (if j \<in> set is then upper_of (bs ! j) else U1 ! j)"
      by (simp add: U1_def)
    with j ni show "U' ! j = (if j \<in> set (i # is) then upper_of (bs ! j) else U ! j)"
      by (cases "j = i") (auto simp: U1_def)
  qed
  from q1 q2 q3 q4 show ?case by blast
qed

lemma parse_bounds_pairs:
  assumes "length bs = n" "2 \<le> n" "\<forall>p \<in> set bs. length p = 2"
  shows "parse_bounds n (Some bs) =
           Inr (Vector (map lower_of bs), Vector (map upper_of bs), 0, [])"
proof -
  have d: "distinct [0..<n]" by simp
  have r: "\<forall>i \<in> set [0..<n]. length (bs ! i) = 2" using assms(1,3) by simp
  have z: "length (bs ! 0) = 2" using assms by simp
  from read_pairs_all [OF d r z, of "replicate n (Fin 0)" "replicate n PInf"]
  obtain L' U' where
    e: "read_pairs bs [0..<n] (replicate n (Fin 0)) (replicate n PInf) = (False, L', U')"
    and l: "length L' = n" "length U' = n"
    and pL: "\<forall>j < n. L' ! j = lower_of (bs ! j)"
    and pU: "\<forall>j < n. U' ! j = upper_of (bs ! j)"
    by auto
  have L: "L' = map lower_of bs" using l pL assms(1) by (intro nth_equalityI) auto
  have U: "U' = map upper_of bs" using l pU assms(1) by (intro nth_equalityI) auto
  from assms(1,2) have "length bs \<noteq> 0" "length bs \<noteq> 1" by auto
  with assms(1) e L U show ?thesis by (simp add: parse_bounds_def Let_def)
qed

lemma standardize_default_bounds:
  assumes "parse_bounds (length c) bounds =
             Inr (Vector (replicate (length c) (Fin 0)),
                  Vector (replicate (length c) PInf), s, m)"
  shows "standardize c A_ub b_ub A_eq b_eq bounds =
           Inr (check_shapes
             \<lparr>v_n = length c, v_L = replicate (length c) (Fin 0),
               v_U = replicate (length c) PInf, v_cc = c,
               v_Aeq = matrix_or_empty (length c) A_eq, v_beq = vector_or_empty b_eq,
               v_Aub = matrix_or_empty (length c) A_ub, v_bub = vector_or_empty b_ub,
               v_f0 = 0, v_status = s, v_message = m, v_have_floor_variable = False\<rparr>)"
proof -
  define st0 where "st0 =
             \<lparr>v_n = length c, v_L = replicate (length c) (Fin 0),
               v_U = replicate (length c) PInf, v_cc = c,
               v_Aeq = matrix_or_empty (length c) A_eq, v_beq = vector_or_empty b_eq,
               v_Aub = matrix_or_empty (length c) A_ub, v_bub = vector_or_empty b_ub,
               v_f0 = 0, v_status = s, v_message = m, v_have_floor_variable = False\<rparr>"
  have n0: "v_n st0 = length c" by (simp add: st0_def)
  have dflt: "\<forall>i \<in> set [0..<length c]. v_L st0 ! i = Fin 0 \<and> v_U st0 ! i = PInf"
    by (simp add: st0_def)
  have l1: "for_each bound_rows_step [0..<length c] st0 = Inr st0"
    using dflt by (intro for_each_identity) (simp add: bound_rows_step_default)
  have l2: "for_each shift_step [0..<length c] st0 = Inr st0"
    using dflt by (intro for_each_identity) (simp add: shift_step_default)
  have nf: "\<not> any_minus_inf (Vector (replicate (length c) (Fin 0)))" by simp
  show ?thesis
    unfolding standardize_def Let_def assms
    by (simp only: nf if_False prod.case bounds_array.case sum.case
          st0_def [symmetric] n0 l1 l2)
qed

lemma hstack_zeros_shape:
  "ncols (hstack_zeros A) = Suc (ncols A)" "length (rows (hstack_zeros A)) = length (rows A)"
  by (simp_all add: hstack_zeros_def)

lemma standardize_pairs_invalid:
  assumes len: "length bs = length c" and two: "2 \<le> length c"
    and pairs: "\<forall>p \<in> set bs. length p = 2"
    and bad: "\<exists>i < length bs. bad_bounds (lower_of (bs ! i)) (upper_of (bs ! i))"
    and shp: "ncols (matrix_or_empty (length c) A_ub) = length c"
      "ncols (matrix_or_empty (length c) A_eq) = length c"
      "length (rows (matrix_or_empty (length c) A_ub)) = length (vector_or_empty b_ub)"
      "length (rows (matrix_or_empty (length c) A_eq)) = length (vector_or_empty b_eq)"
  shows "\<exists>st. standardize c A_ub b_ub A_eq b_eq (Some bs) = Inr st \<and> v_status st = - 1 \<and>
              (length (v_cc st) = length c \<or> length (v_cc st) = Suc (length c))"
proof -
  note pb = parse_bounds_pairs [OF len two pairs]
  from bad obtain i where i: "i < length bs"
    "bad_bounds (lower_of (bs ! i)) (upper_of (bs ! i))" by blast
  show ?thesis
  proof (cases "MInf \<in> set (map lower_of bs)")
    case True
    define st0 where "st0 =
      \<lparr>v_n = length c + 1, v_L = Fin 0 # map lower_of bs, v_U = PInf # map upper_of bs,
        v_cc = 0 # c, v_Aeq = hstack_zeros (matrix_or_empty (length c) A_eq),
        v_beq = vector_or_empty b_eq,
        v_Aub = hstack_zeros (matrix_or_empty (length c) A_ub),
        v_bub = vector_or_empty b_ub, v_f0 = 0, v_status = 0, v_message = [],
        v_have_floor_variable = True\<rparr>"
    have sh: "shapes_agree st0"
      using shp len by (simp add: st0_def shapes_agree_def hstack_zeros_shape)
    have "Suc i < v_n st0 \<and> bad_bounds (v_L st0 ! Suc i) (v_U st0 ! Suc i)"
      using i len by (simp add: st0_def)
    then have b0: "\<exists>k < v_n st0. bad_bounds (v_L st0 ! k) (v_U st0 ! k)" by blast
    from bound_then_shift_invalid [OF sh b0] obtain st1 st2 where
      f: "for_each bound_rows_step [0..<v_n st0] st0 = Inr st1"
      and g: "for_each shift_step [0..<v_n st1] st1 = Inr st2"
      and s: "v_status (check_shapes st2) = - 1"
      and l: "length (v_cc (check_shapes st2)) = v_n st0" by blast
    have am: "any_minus_inf (Vector (map lower_of bs))" using True by simp
    have "standardize c A_ub b_ub A_eq b_eq (Some bs) = Inr (check_shapes st2)"
      unfolding standardize_def Let_def pb
      by (simp only: am if_True prod.case bounds_array.case sum.case
            st0_def [symmetric] f g)
    moreover have "v_n st0 = Suc (length c)" by (simp add: st0_def)
    ultimately show ?thesis using s l by simp
  next
    case False
    define st0 where "st0 =
      \<lparr>v_n = length c, v_L = map lower_of bs, v_U = map upper_of bs,
        v_cc = c, v_Aeq = matrix_or_empty (length c) A_eq,
        v_beq = vector_or_empty b_eq,
        v_Aub = matrix_or_empty (length c) A_ub,
        v_bub = vector_or_empty b_ub, v_f0 = 0, v_status = 0, v_message = [],
        v_have_floor_variable = False\<rparr>"
    have sh: "shapes_agree st0"
      using shp len by (simp add: st0_def shapes_agree_def)
    have "i < v_n st0 \<and> bad_bounds (v_L st0 ! i) (v_U st0 ! i)"
      using i len by (simp add: st0_def)
    then have b0: "\<exists>k < v_n st0. bad_bounds (v_L st0 ! k) (v_U st0 ! k)" by blast
    from bound_then_shift_invalid [OF sh b0] obtain st1 st2 where
      f: "for_each bound_rows_step [0..<v_n st0] st0 = Inr st1"
      and g: "for_each shift_step [0..<v_n st1] st1 = Inr st2"
      and s: "v_status (check_shapes st2) = - 1"
      and l: "length (v_cc (check_shapes st2)) = v_n st0" by blast
    have am: "\<not> any_minus_inf (Vector (map lower_of bs))" using False by simp
    have "standardize c A_ub b_ub A_eq b_eq (Some bs) = Inr (check_shapes st2)"
      unfolding standardize_def Let_def pb
      by (simp only: am if_False prod.case bounds_array.case sum.case
            st0_def [symmetric] f g)
    moreover have "v_n st0 = length c" by (simp add: st0_def)
    ultimately show ?thesis using s l by simp
  qed
qed

lemma linprog_simplex_invalid:
  assumes "standardize c A_ub b_ub A_eq b_eq bounds = Inr st" "v_status st = - 1"
  shows "linprog_simplex c A_ub b_ub A_eq b_eq bounds maxiter callback tol =
           Inr (Invalid_input,
                \<lparr>r_x = replicate (length (v_cc st)) 0, r_fun = 0, r_nit = 0,
                  r_status = - 1, r_message = v_message st, r_success = False\<rparr>,
                [])"
  using assms by (simp add: linprog_simplex_def)

lemma bad_bounds_iff:
  "bad_bounds l u \<longleftrightarrow> ext_less u l \<or> l = PInf \<or> u = MInf"
  by (cases l; cases u) (simp_all add: bad_bounds_def)

section \<open>Invalid input that is reported\<close>

text \<open>
  Inputs on which the checks of lines 670 to 812 are reached and the solver returns
  status -1 with a zero vector, \<^verbatim>\<open>success=False\<close> and zero iterations, from the return
  statement that precedes the construction of the tableau and without any observer
  call: a bounds sequence of a length other than 0, 1 and n; absent or empty bounds with
  a constraint matrix whose row count differs from the length of its right-hand side or
  whose nonzero column count differs from n; and, for n of at least 2, n pairs of which
  one has lb > ub, lb = +inf or ub = -inf, with constraint matrices of n columns and as
  many rows as their right-hand sides.
\<close>

lemma reported_invalid_input:
  assumes
    "(\<exists>bs. bounds = Some bs \<and> length bs \<noteq> 0 \<and> length bs \<noteq> 1 \<and> length bs \<noteq> length c) \<or>
     ((bounds = None \<or> bounds = Some []) \<and>
      (length (rows (matrix_or_empty (length c) A_eq)) \<noteq> length (vector_or_empty b_eq) \<or>
       length (rows (matrix_or_empty (length c) A_ub)) \<noteq> length (vector_or_empty b_ub) \<or>
       (0 < ncols (matrix_or_empty (length c) A_eq) \<and>
        ncols (matrix_or_empty (length c) A_eq) \<noteq> length c) \<or>
       (0 < ncols (matrix_or_empty (length c) A_ub) \<and>
        ncols (matrix_or_empty (length c) A_ub) \<noteq> length c))) \<or>
     (\<exists>bs. bounds = Some bs \<and> length bs = length c \<and> 2 \<le> length c \<and>
        (\<forall>p \<in> set bs. length p = 2) \<and>
        (\<exists>i < length bs. ext_less (upper_of (bs ! i)) (lower_of (bs ! i)) \<or>
                          lower_of (bs ! i) = PInf \<or> upper_of (bs ! i) = MInf) \<and>
        ncols (matrix_or_empty (length c) A_ub) = length c \<and>
        ncols (matrix_or_empty (length c) A_eq) = length c \<and>
        length (rows (matrix_or_empty (length c) A_ub)) = length (vector_or_empty b_ub) \<and>
        length (rows (matrix_or_empty (length c) A_eq)) = length (vector_or_empty b_eq))"
  shows "\<exists>k m. linprog_simplex c A_ub b_ub A_eq b_eq bounds maxiter callback tol =
                 Inr (Invalid_input,
                      \<lparr>r_x = replicate k 0, r_fun = 0, r_nit = 0, r_status = - 1,
                        r_message = m, r_success = False\<rparr>,
                      []) \<and>
               (k = length c \<or> k = Suc (length c))"
proof -
  consider
    (length) bs where "bounds = Some bs" "length bs \<noteq> 0" "length bs \<noteq> 1"
      "length bs \<noteq> length c"
  | (shape) "bounds = None \<or> bounds = Some []"
      "length (rows (matrix_or_empty (length c) A_eq)) \<noteq> length (vector_or_empty b_eq) \<or>
       length (rows (matrix_or_empty (length c) A_ub)) \<noteq> length (vector_or_empty b_ub) \<or>
       (0 < ncols (matrix_or_empty (length c) A_eq) \<and>
        ncols (matrix_or_empty (length c) A_eq) \<noteq> length c) \<or>
       (0 < ncols (matrix_or_empty (length c) A_ub) \<and>
        ncols (matrix_or_empty (length c) A_ub) \<noteq> length c)"
  | (pair) bs i where "bounds = Some bs" "length bs = length c" "2 \<le> length c"
      "\<forall>p \<in> set bs. length p = 2" "i < length bs"
      "ext_less (upper_of (bs ! i)) (lower_of (bs ! i)) \<or>
              lower_of (bs ! i) = PInf \<or> upper_of (bs ! i) = MInf"
      "ncols (matrix_or_empty (length c) A_ub) = length c"
      "ncols (matrix_or_empty (length c) A_eq) = length c"
      "length (rows (matrix_or_empty (length c) A_ub)) = length (vector_or_empty b_ub)"
      "length (rows (matrix_or_empty (length c) A_eq)) = length (vector_or_empty b_eq)"
    using assms by blast
  then have "\<exists>st. standardize c A_ub b_ub A_eq b_eq bounds = Inr st \<and> v_status st = - 1 \<and>
              (length (v_cc st) = length c \<or> length (v_cc st) = Suc (length c))"
  proof cases
    case length
    then have "parse_bounds (length c) bounds =
             Inr (Vector (replicate (length c) (Fin 0)),
                  Vector (replicate (length c) PInf), - 1,
                  ''Invalid input.  Length of bounds is inconsistent with the length of c'')"
      by (simp add: parse_bounds_def)
    from standardize_default_bounds [OF this, of A_ub b_ub A_eq b_eq]
    show ?thesis by (simp add: check_shapes_status check_shapes_cc)
  next
    case shape
    from shape(1) have "parse_bounds (length c) bounds =
             Inr (Vector (replicate (length c) (Fin 0)),
                  Vector (replicate (length c) PInf), 0, [])"
      by (auto simp: parse_bounds_def)
    from standardize_default_bounds [OF this, of A_ub b_ub A_eq b_eq] shape(2)
    show ?thesis by (simp add: check_shapes_status check_shapes_cc)
  next
    case pair
    from pair(5,6) have
      bad: "\<exists>i < length bs. bad_bounds (lower_of (bs ! i)) (upper_of (bs ! i))"
      unfolding bad_bounds_iff by blast
    from standardize_pairs_invalid [OF pair(2,3,4) bad pair(7-10)] pair(1)
    show ?thesis by simp
  qed
  then obtain st where st: "standardize c A_ub b_ub A_eq b_eq bounds = Inr st"
    "v_status st = - 1"
    and k: "length (v_cc st) = length c \<or> length (v_cc st) = Suc (length c)" by blast
  from linprog_simplex_invalid [OF st, of maxiter callback tol] k
  show ?thesis by blast
qed

lemma reported_invalid_input_example:
  "length [[Some (Fin 3), Some (Fin 2)], [Some (Fin 0), Some PInf]] = length [1, 1 :: rat] \<and>
   ext_less (upper_of ([[Some (Fin 3), Some (Fin 2)], [Some (Fin 0), Some PInf]] ! 0))
            (lower_of ([[Some (Fin 3), Some (Fin 2)], [Some (Fin 0), Some PInf]] ! 0)) \<and>
   (\<exists>k m. linprog_simplex [1, 1] None None None None
             (Some [[Some (Fin 3), Some (Fin 2)], [Some (Fin 0), Some PInf]])
             1000 False (1 / 10 ^ 12) =
           Inr (Invalid_input,
                \<lparr>r_x = replicate k 0, r_fun = 0, r_nit = 0, r_status = - 1,
                  r_message = m, r_success = False\<rparr>,
                []) \<and>
           (k = length [1, 1 :: rat] \<or> k = Suc (length [1, 1 :: rat]))) \<and>
   linprog_simplex [1, 1] None None None None
             (Some [[Some (Fin 3), Some (Fin 2)], [Some (Fin 0), Some PInf]])
             1000 False (1 / 10 ^ 12) =
     Inr (Invalid_input,
          \<lparr>r_x = [0, 0], r_fun = 0, r_nit = 0, r_status = - 1,
            r_message = ''Invalid input.  Lower bound 0 is greater than upper bound 0'',
            r_success = False\<rparr>,
          [])"
proof -
  have v: "ext_less (upper_of ([[Some (Fin 3), Some (Fin 2)], [Some (Fin 0), Some PInf]] ! 0))
            (lower_of ([[Some (Fin 3), Some (Fin 2)], [Some (Fin 0), Some PInf]] ! 0))"
    by (simp add: upper_of_def lower_of_def)
  have h: "(\<exists>bs. Some [[Some (Fin 3), Some (Fin 2)], [Some (Fin 0), Some PInf]] = Some bs \<and>
        length bs = length [1, 1 :: rat] \<and> 2 \<le> length [1, 1 :: rat] \<and>
        (\<forall>p \<in> set bs. length p = 2) \<and>
        (\<exists>i < length bs. ext_less (upper_of (bs ! i)) (lower_of (bs ! i)) \<or>
                          lower_of (bs ! i) = PInf \<or> upper_of (bs ! i) = MInf) \<and>
        ncols (matrix_or_empty (length [1, 1 :: rat]) None) = length [1, 1 :: rat] \<and>
        ncols (matrix_or_empty (length [1, 1 :: rat]) None) = length [1, 1 :: rat] \<and>
        length (rows (matrix_or_empty (length [1, 1 :: rat]) None)) =
          length (vector_or_empty None) \<and>
        length (rows (matrix_or_empty (length [1, 1 :: rat]) None)) =
          length (vector_or_empty None))"
  proof (rule exI [of _ "[[Some (Fin 3), Some (Fin 2)], [Some (Fin 0), Some PInf]]"],
         intro conjI)
    show "\<exists>i < length [[Some (Fin 3), Some (Fin 2)], [Some (Fin 0), Some PInf]].
            ext_less (upper_of ([[Some (Fin 3), Some (Fin 2)], [Some (Fin 0), Some PInf]] ! i))
              (lower_of ([[Some (Fin 3), Some (Fin 2)], [Some (Fin 0), Some PInf]] ! i)) \<or>
            lower_of ([[Some (Fin 3), Some (Fin 2)], [Some (Fin 0), Some PInf]] ! i) = PInf \<or>
            upper_of ([[Some (Fin 3), Some (Fin 2)], [Some (Fin 0), Some PInf]] ! i) = MInf"
      using v by (intro exI [of _ 0]) simp
  qed (simp_all add: matrix_or_empty_def vector_or_empty_def)
  have t: "\<exists>k m. linprog_simplex [1, 1] None None None None
             (Some [[Some (Fin 3), Some (Fin 2)], [Some (Fin 0), Some PInf]])
             1000 False (1 / 10 ^ 12) =
           Inr (Invalid_input,
                \<lparr>r_x = replicate k 0, r_fun = 0, r_nit = 0, r_status = - 1,
                  r_message = m, r_success = False\<rparr>,
                []) \<and>
           (k = length [1, 1 :: rat] \<or> k = Suc (length [1, 1 :: rat]))"
    by (rule reported_invalid_input, rule disjI2, rule disjI2, rule h)
  have e: "linprog_simplex [1, 1] None None None None
             (Some [[Some (Fin 3), Some (Fin 2)], [Some (Fin 0), Some PInf]])
             1000 False (1 / 10 ^ 12) =
     Inr (Invalid_input,
          \<lparr>r_x = [0, 0], r_fun = 0, r_nit = 0, r_status = - 1,
            r_message = ''Invalid input.  Lower bound 0 is greater than upper bound 0'',
            r_success = False\<rparr>,
          [])"
    by code_simp
  from v t e show ?thesis by (intro conjI) simp_all
qed

text \<open>
  Line 670 treats a bounds sequence of length 0 like absent bounds: the problem is
  solved with the default bounds.
\<close>

lemma empty_bounds_sequence_accepted:
  "length ([] :: ext option list list) \<noteq> 1 \<and>
   length ([] :: ext option list list) \<noteq> length [1 :: rat] \<and>
   linprog_simplex [1] (Some \<lparr>ncols = 1, rows = [[1]]\<rparr>) (Some [1]) None None (Some [])
       1000 False (1 / 10 ^ 12) =
     Inr (Finished,
          \<lparr>r_x = [0], r_fun = 0, r_nit = 2, r_status = 0,
            r_message = ''Optimization terminated successfully.'', r_success = True\<rparr>,
          [])"
proof (intro conjI)
  show "linprog_simplex [1] (Some \<lparr>ncols = 1, rows = [[1]]\<rparr>) (Some [1]) None None (Some [])
       1000 False (1 / 10 ^ 12) =
     Inr (Finished,
          \<lparr>r_x = [0], r_fun = 0, r_nit = 2, r_status = 0,
            r_message = ''Optimization terminated successfully.'', r_success = True\<rparr>,
          [])"
    by code_simp
qed simp_all

section \<open>Where the code departs from the claims\<close>

text \<open>
  Claim C1 says that a pass which finds every coefficient of the objective row at or
  above \<open>-tol\<close> ends the phase with status 0 and never with status 3. The ratio test of
  lines 318 to 328 runs before the optimality test of line 333: on the tableau below the
  objective row is \<open>[0]\<close>, the entering column has no positive entry, and the engine
  returns status 3.
\<close>

theorem optimal_row_reported_unbounded:
  "list_all (\<lambda>a. - (1 / 10 ^ 12) \<le> a) (butlast (last [[- 1, 1], [0, 0 :: rat]])) \<and>
   lpsimplex [[- 1, 1], [0, 0]] 1 0 0 1000 2 False (1 / 10 ^ 12) 0 =
     Inr \<lparr>o_x = [0], o_nit = 0, o_status = 3,
          o_message = ''Optimization failed. The problem appears to be unbounded.'',
          o_tableau = [[- 1, 1], [0, 0]], o_calls = []\<rparr>"
proof
  show "list_all (\<lambda>a. - (1 / 10 ^ 12) \<le> a) (butlast (last [[- 1, 1], [0, 0 :: rat]]))"
    by simp
  show "lpsimplex [[- 1, 1], [0, 0]] 1 0 0 1000 2 False (1 / 10 ^ 12) 0 =
     Inr \<lparr>o_x = [0], o_nit = 0, o_status = 3,
          o_message = ''Optimization failed. The problem appears to be unbounded.'',
          o_tableau = [[- 1, 1], [0, 0]], o_calls = []\<rparr>"
    by code_simp
qed

text \<open>
  Claim C2 says that an iteration cap of 0 on a problem with a nonzero right-hand side
  returns status 1. Phase 1 returns status 1, and line 888 replaces it by status 2
  because the pseudo-objective is not within the tolerance of zero: minimising \<open>x\<close>
  subject to \<open>x \<le> 1\<close> with \<^verbatim>\<open>maxiter=0\<close> returns status 2.
\<close>

theorem iteration_cap_zero_reported_infeasible:
  "linprog_simplex [1] (Some \<lparr>ncols = 1, rows = [[1]]\<rparr>) (Some [1]) None None None 0
       False (1 / 10 ^ 12) =
     Inr (Phase1_failed,
          \<lparr>r_x = [0], r_fun = 1, r_nit = 0, r_status = 2,
            r_message = ''Optimization Failed.  Unable to find a feasible starting point.'',
            r_success = False\<rparr>,
          [])"
  by code_simp

text \<open>
  Claim C3 says that a single pair of bounds gives the result of n copies of the pair.
  Lines 674 and 675 multiply the items of the pair by n, which makes \<^verbatim>\<open>L\<close> and \<^verbatim>\<open>U\<close>
  arrays of dimension 0, and the first loop over the variables raises IndexError: with
  two variables the single pair \<open>(0, inf)\<close> raises where two such pairs solve the problem.
\<close>

theorem single_pair_of_bounds_raises:
  "linprog_simplex [1, 2] (Some \<lparr>ncols = 2, rows = [[- 1, - 1]]\<rparr>) (Some [- 1]) None None
       (Some [[Some (Fin 0), Some PInf]]) 1000 False (1 / 10 ^ 12) = Inl IndexError \<and>
   linprog_simplex [1, 2] (Some \<lparr>ncols = 2, rows = [[- 1, - 1]]\<rparr>) (Some [- 1]) None None
       (Some [[Some (Fin 0), Some PInf], [Some (Fin 0), Some PInf]]) 1000 False
       (1 / 10 ^ 12) =
     Inr (Finished,
          \<lparr>r_x = [1, 0], r_fun = 1, r_nit = 1, r_status = 0,
            r_message = ''Optimization terminated successfully.'', r_success = True\<rparr>,
          [])"
proof
  show "linprog_simplex [1, 2] (Some \<lparr>ncols = 2, rows = [[- 1, - 1]]\<rparr>) (Some [- 1]) None
       None (Some [[Some (Fin 0), Some PInf]]) 1000 False (1 / 10 ^ 12) = Inl IndexError"
    by code_simp
  show "linprog_simplex [1, 2] (Some \<lparr>ncols = 2, rows = [[- 1, - 1]]\<rparr>) (Some [- 1]) None
       None (Some [[Some (Fin 0), Some PInf], [Some (Fin 0), Some PInf]]) 1000 False
       (1 / 10 ^ 12) =
     Inr (Finished,
          \<lparr>r_x = [1, 0], r_fun = 1, r_nit = 1, r_status = 0,
            r_message = ''Optimization terminated successfully.'', r_success = True\<rparr>,
          [])"
    by code_simp
qed

text \<open>
  Claim C10 says that \<^verbatim>\<open>None\<close> in a pair stands for no bound whenever the bounds are
  n pairs. With one variable the n pairs are a single pair, the branch of lines 674
  and 675 is taken, and \<^verbatim>\<open>n*None\<close> raises TypeError.
\<close>

theorem none_bound_of_single_variable_raises:
  "linprog_simplex [1] None None None None (Some [[None, None]]) 1000 False (1 / 10 ^ 12) =
     Inl TypeError \<and>
   linprog_simplex [1] None None None None (Some [[Some (Fin 0), None]]) 1000 False
     (1 / 10 ^ 12) = Inl TypeError"
proof
  show "linprog_simplex [1] None None None None (Some [[None, None]]) 1000 False
          (1 / 10 ^ 12) = Inl TypeError"
    by code_simp
  show "linprog_simplex [1] None None None None (Some [[Some (Fin 0), None]]) 1000 False
          (1 / 10 ^ 12) = Inl TypeError"
    by code_simp
qed

text \<open>
  Claim C6 says that every invalid input is returned as status -1 with a zero solution
  vector, before a tableau is built. The checks exist (lines 709 to 720 for the bounds,
  lines 794 to 812 for the shapes), and the code raises on two kinds of invalid input
  before it can report them. With one variable the pair \<open>(3, 2)\<close> takes the branch of
  lines 674 and 675, which makes \<^verbatim>\<open>L\<close> and \<^verbatim>\<open>U\<close> arrays of dimension 0, and the
  comparison \<^verbatim>\<open>L[i] > U[i]\<close> of line 709 raises IndexError; the same pair among the
  bounds of two variables is returned as status -1. With a constraint matrix of three
  columns for two variables and a positive lower bound, \<^verbatim>\<open>np.vstack\<close> at line 724 raises
  ValueError before the shape checks are run; with the default bounds written out the
  same matrix is returned as status -1.
\<close>

theorem invalid_input_raises_before_report:
  "linprog_simplex [1] None None None None (Some [[Some (Fin 3), Some (Fin 2)]]) 1000 False
       (1 / 10 ^ 12) = Inl IndexError \<and>
   linprog_simplex [1, 1] None None None None
       (Some [[Some (Fin 3), Some (Fin 2)], [Some (Fin 0), Some PInf]]) 1000 False
       (1 / 10 ^ 12) =
     Inr (Invalid_input,
          \<lparr>r_x = [0, 0], r_fun = 0, r_nit = 0, r_status = - 1,
            r_message = ''Invalid input.  Lower bound 0 is greater than upper bound 0'',
            r_success = False\<rparr>,
          []) \<and>
   linprog_simplex [1, 1] (Some \<lparr>ncols = 3, rows = [[1, 1, 1]]\<rparr>) (Some [1]) None None
       (Some [[Some (Fin 1), Some PInf], [Some (Fin 0), Some PInf]]) 1000 False
       (1 / 10 ^ 12) = Inl ValueError \<and>
   linprog_simplex [1, 1] (Some \<lparr>ncols = 3, rows = [[1, 1, 1]]\<rparr>) (Some [1]) None None
       (Some [[Some (Fin 0), Some PInf], [Some (Fin 0), Some PInf]]) 1000 False
       (1 / 10 ^ 12) =
     Inr (Invalid_input,
          \<lparr>r_x = [0, 0], r_fun = 0, r_nit = 0, r_status = - 1,
            r_message =
              ''Invalid input.  Number of columns in A_ub must be equal to the size of c'',
            r_success = False\<rparr>,
          [])"
proof (intro conjI)
  show "linprog_simplex [1] None None None None (Some [[Some (Fin 3), Some (Fin 2)]]) 1000
          False (1 / 10 ^ 12) = Inl IndexError"
    by code_simp
  show "linprog_simplex [1, 1] None None None None
       (Some [[Some (Fin 3), Some (Fin 2)], [Some (Fin 0), Some PInf]]) 1000 False
       (1 / 10 ^ 12) =
     Inr (Invalid_input,
          \<lparr>r_x = [0, 0], r_fun = 0, r_nit = 0, r_status = - 1,
            r_message = ''Invalid input.  Lower bound 0 is greater than upper bound 0'',
            r_success = False\<rparr>,
          [])"
    by code_simp
  show "linprog_simplex [1, 1] (Some \<lparr>ncols = 3, rows = [[1, 1, 1]]\<rparr>) (Some [1]) None None
       (Some [[Some (Fin 1), Some PInf], [Some (Fin 0), Some PInf]]) 1000 False
       (1 / 10 ^ 12) = Inl ValueError"
    by code_simp
  show "linprog_simplex [1, 1] (Some \<lparr>ncols = 3, rows = [[1, 1, 1]]\<rparr>) (Some [1]) None None
       (Some [[Some (Fin 0), Some PInf], [Some (Fin 0), Some PInf]]) 1000 False
       (1 / 10 ^ 12) =
     Inr (Invalid_input,
          \<lparr>r_x = [0, 0], r_fun = 0, r_nit = 0, r_status = - 1,
            r_message =
              ''Invalid input.  Number of columns in A_ub must be equal to the size of c'',
            r_success = False\<rparr>,
          [])"
    by code_simp
qed

text \<open>
  Claim C7 says that, for every tableau, the basis reader reports a column as basic when
  it has one entry 1 and zeros in the other constraint rows, with the right-hand side
  of the row that holds the 1 as its value, and that every other column contributes 0
  to the solution. Line 166 looks for the 1 above the last row, as the claim has it,
  but the tests of line 164 count the ones and zeros of the whole column, so a column
  whose only nonzero entry is a 1 in an objective row passes them. Minimising
  \<open>x0 + x1\<close> with \<open>2 \<le> x0 \<le> 5\<close> and \<open>-3 \<le> x1\<close>: the column of \<open>x1\<close> is zero in the two
  constraint rows and 1 in the objective row. At the end of phase 1 the reader takes it
  and reports the right-hand side of the objective row, -2, as its value; at the end of
  phase 2 the objective row is the last row and the reader raises IndexError, which the
  solver passes on. With the upper bound 7 on \<open>x1\<close>, which the minimum does not touch,
  the solver returns the minimum -1 at \<open>(2, -3)\<close>.
\<close>

theorem unit_in_objective_row_raises:
  "linprog_simplex [1, 1] None None None None
       (Some [[Some (Fin 2), Some (Fin 5)], [Some (Fin (- 3)), Some PInf]]) 1000 False
       (1 / 10 ^ 12) = Inl IndexError \<and>
   get_basics [[1, 0, 0, 1, 0, 1, 5], [0, 0, 1, 1, - 1, 1, 3], [0, 1, 0, - 1, 0, - 1, - 2],
               [0, 0, 0, 0, 1, 1, 0]] = Inr [(0, 5), (1, - 2), (2, 3)] \<and>
   lp_loop 2 2 False [] (1 / 10 ^ 12) [[1, 0, 0, 1, 5], [0, 0, 1, 1, 3], [0, 1, 0, - 1, - 2]]
       1000
       \<lparr>s_tableau = [[1, 0, 0, 1, 5], [0, 0, 1, 1, 3], [0, 1, 0, - 1, - 2]], s_nit = 2,
         s_status = None, s_cycle = 0, s_calls = []\<rparr> =
     Inr (\<lparr>s_tableau = [[1, 0, - 1, 0, 2], [0, 0, 1, 1, 3], [0, 1, 1, 0, 1]], s_nit = 3,
            s_status = Some 0, s_cycle = 0, s_calls = []\<rparr>,
          0, ''Optimization terminated successfully.'') \<and>
   get_basics [[1, 0, - 1, 0, 2], [0, 0, 1, 1, 3], [0, 1, 1, 0, 1]] = Inl IndexError \<and>
   linprog_simplex [1, 1] None None None None
       (Some [[Some (Fin 2), Some (Fin 5)], [Some (Fin (- 3)), Some (Fin 7)]]) 1000 False
       (1 / 10 ^ 12) =
     Inr (Finished,
          \<lparr>r_x = [2, - 3], r_fun = - 1, r_nit = 5, r_status = 0,
            r_message = ''Optimization terminated successfully.'', r_success = True\<rparr>,
          [])"
proof (intro conjI)
  show "linprog_simplex [1, 1] None None None None
       (Some [[Some (Fin 2), Some (Fin 5)], [Some (Fin (- 3)), Some PInf]]) 1000 False
       (1 / 10 ^ 12) = Inl IndexError"
    by code_simp
  show "get_basics [[1, 0, 0, 1, 0, 1, 5], [0, 0, 1, 1, - 1, 1, 3],
               [0, 1, 0, - 1, 0, - 1, - 2], [0, 0, 0, 0, 1, 1, 0]] =
        Inr [(0, 5), (1, - 2), (2, 3)]"
    by code_simp
  show "lp_loop 2 2 False [] (1 / 10 ^ 12)
       [[1, 0, 0, 1, 5], [0, 0, 1, 1, 3], [0, 1, 0, - 1, - 2]] 1000
       \<lparr>s_tableau = [[1, 0, 0, 1, 5], [0, 0, 1, 1, 3], [0, 1, 0, - 1, - 2]], s_nit = 2,
         s_status = None, s_cycle = 0, s_calls = []\<rparr> =
     Inr (\<lparr>s_tableau = [[1, 0, - 1, 0, 2], [0, 0, 1, 1, 3], [0, 1, 1, 0, 1]], s_nit = 3,
            s_status = Some 0, s_cycle = 0, s_calls = []\<rparr>,
          0, ''Optimization terminated successfully.'')"
    by code_simp
  show "get_basics [[1, 0, - 1, 0, 2], [0, 0, 1, 1, 3], [0, 1, 1, 0, 1]] = Inl IndexError"
    by code_simp
  show "linprog_simplex [1, 1] None None None None
       (Some [[Some (Fin 2), Some (Fin 5)], [Some (Fin (- 3)), Some (Fin 7)]]) 1000 False
       (1 / 10 ^ 12) =
     Inr (Finished,
          \<lparr>r_x = [2, - 3], r_fun = - 1, r_nit = 5, r_status = 0,
            r_message = ''Optimization terminated successfully.'', r_success = True\<rparr>,
          [])"
    by code_simp
qed

section \<open>Further properties of the solver\<close>

lemma lpsimplex_no_pass:
  assumes "maxiter \<le> nit0"
    and "lpsimplex T n n_slack n_artificial maxiter phase callback tol nit0 = Inr out"
  shows "o_status out = 1 \<and> o_nit out = nit0 \<and> o_calls out = [] \<and> o_tableau out = T"
proof -
  have "\<not> (s_nit \<lparr>s_tableau = T, s_nit = nit0, s_status = None, s_cycle = 0, s_calls = []\<rparr>
             < maxiter \<and>
           s_status \<lparr>s_tableau = T, s_nit = nit0, s_status = None, s_cycle = 0,
                      s_calls = []\<rparr> = None)"
    using assms(1) by simp
  from lp_loop_stop [OF this] assms(1)
  have l: "\<And>headers. lp_loop n phase callback headers tol T maxiter
          \<lparr>s_tableau = T, s_nit = nit0, s_status = None, s_cycle = 0, s_calls = []\<rparr> =
        Inr (\<lparr>s_tableau = T, s_nit = nit0, s_status = None, s_cycle = 0, s_calls = []\<rparr>,
             1, ''Iteration limit reached.'')"
    by simp
  from assms(2) show ?thesis
    unfolding lpsimplex_def Let_def l
    by (auto split: sum.splits)
qed

text \<open>
  With an iteration cap of 0 or less the solver never returns status 0: it returns
  before phase 2, with no iteration and no observer call.
\<close>

theorem iteration_cap_zero_never_success:
  assumes "maxiter \<le> 0"
    and "linprog_simplex c A_ub b_ub A_eq b_eq bounds maxiter callback tol =
           Inr (site, r, calls)"
  shows "site \<noteq> Finished \<and> r_status r \<noteq> 0 \<and> \<not> r_success r \<and> r_nit r = 0 \<and> calls = []"
proof (cases "standardize c A_ub b_ub A_eq b_eq bounds")
  case (Inl e)
  with assms(2) show ?thesis by (simp add: linprog_simplex_def)
next
  case (Inr st)
  show ?thesis
  proof (cases "v_status st = 0")
    case False
    with Inr assms(2) show ?thesis by (auto simp: linprog_simplex_def)
  next
    case ok: True
    show ?thesis
    proof (cases "build_tableau st")
      case (Inl e)
      with Inr ok assms(2) show ?thesis by (simp add: linprog_simplex_def)
    next
      case T: (Inr T)
      show ?thesis
      proof (cases "lpsimplex T (v_n st) (length (v_bub st))
                      (length (v_bub st) + length (v_beq st)) maxiter 1 callback tol 0")
        case (Inl e)
        with Inr ok T assms(2) show ?thesis by (simp add: linprog_simplex_def)
      next
        case p1: (Inr p1)
        from lpsimplex_no_pass [OF assms(1) p1]
        have q: "o_status p1 = 1" "o_nit p1 = 0" "o_calls p1 = []" by simp_all
        have "linprog_simplex c A_ub b_ub A_eq b_eq bounds maxiter callback tol =
                Inr (Phase1_failed,
                     \<lparr>r_x = o_x p1,
                       r_fun = - last (last
                          (if \<bar>last (last (o_tableau p1))\<bar> < tol
                           then drop_artificial (v_n st) (length (v_bub st))
                                  (length (v_bub st) + length (v_beq st)) (o_tableau p1)
                           else o_tableau p1)),
                       r_nit = 0,
                       r_status = (if \<bar>last (last (o_tableau p1))\<bar> < tol then 1 else 2),
                       r_message =
                         (if \<bar>last (last (o_tableau p1))\<bar> < tol then o_message p1
                          else ''Optimization Failed.  Unable to find a feasible starting point.''),
                       r_success = False\<rparr>,
                     [])"
          using Inr ok T p1 q by (simp add: linprog_simplex_def Let_def)
        with assms(2) show ?thesis by (auto split: if_splits)
      qed
    qed
  qed
qed

theorem iteration_cap_zero_never_success_witness:
  "(0 :: int) \<le> 0 \<and>
   linprog_simplex [1] (Some \<lparr>ncols = 1, rows = [[1]]\<rparr>) (Some [1]) None None None 0
       False (1 / 10 ^ 12) =
     Inr (Phase1_failed,
          \<lparr>r_x = [0], r_fun = 1, r_nit = 0, r_status = 2,
            r_message = ''Optimization Failed.  Unable to find a feasible starting point.'',
            r_success = False\<rparr>,
          []) \<and>
   Phase1_failed \<noteq> Finished \<and> (2 :: int) \<noteq> 0"
proof -
  have e: "linprog_simplex [1] (Some \<lparr>ncols = 1, rows = [[1]]\<rparr>) (Some [1]) None None None 0
       False (1 / 10 ^ 12) =
     Inr (Phase1_failed,
          \<lparr>r_x = [0], r_fun = 1, r_nit = 0, r_status = 2,
            r_message = ''Optimization Failed.  Unable to find a feasible starting point.'',
            r_success = False\<rparr>,
          [])"
    by code_simp
  have z: "(0 :: int) \<le> 0" by simp
  from iteration_cap_zero_never_success [OF z e] e show ?thesis by simp
qed

text \<open>
  A bounds sequence that holds a single pair makes the solver raise for every problem
  with at least one variable, whatever the pair is.
\<close>

theorem single_pair_always_raises:
  assumes "1 \<le> length c"
  shows "\<exists>e. linprog_simplex c A_ub b_ub A_eq b_eq (Some [p]) maxiter callback tol = Inl e"
proof -
  have "\<exists>e. standardize c A_ub b_ub A_eq b_eq (Some [p]) = Inl e"
  proof (cases "parse_bounds (length c) (Some [p])")
    case (Inl e)
    then show ?thesis by (simp add: standardize_def)
  next
    case (Inr q)
    then obtain l u where q: "q = (Scalar l, Scalar u, 0, [])"
      by (auto simp: parse_bounds_def split: list.splits sum.splits)
    from assms have n: "length c \<noteq> 0" by (cases c) simp_all
    show ?thesis
      unfolding standardize_def Let_def Inr q using n
      by (cases "any_minus_inf (Scalar l)") simp_all
  qed
  then show ?thesis by (auto simp: linprog_simplex_def)
qed

theorem single_pair_always_raises_witness:
  "1 \<le> length [1, 2 :: rat] \<and>
   (\<exists>e. linprog_simplex [1, 2] (Some \<lparr>ncols = 2, rows = [[- 1, - 1]]\<rparr>) (Some [- 1]) None
          None (Some [[Some (Fin 0), Some PInf]]) 1000 False (1 / 10 ^ 12) = Inl e)"
proof -
  have h: "1 \<le> length [1, 2 :: rat]" by simp
  from single_pair_always_raises [OF h] h show ?thesis by blast
qed

text \<open>
  For two or more variables and bounds given as n pairs of two items, \<^verbatim>\<open>None\<close> in the
  lower position is read as -infinity and \<^verbatim>\<open>None\<close> in the upper position as
  +infinity: the arrays \<^verbatim>\<open>L\<close> and \<^verbatim>\<open>U\<close> hold these values, and the solver returns
  what it returns when the infinities are written out.
\<close>

theorem none_is_infinity_for_two_or_more:
  assumes "length bs = length c" "2 \<le> length c" "\<forall>p \<in> set bs. length p = 2"
  shows "parse_bounds (length c) (Some bs) =
           Inr (Vector (map lower_of bs), Vector (map upper_of bs), 0, []) \<and>
         linprog_simplex c A_ub b_ub A_eq b_eq (Some bs) maxiter callback tol =
         linprog_simplex c A_ub b_ub A_eq b_eq
           (Some (map (\<lambda>p. [Some (lower_of p), Some (upper_of p)]) bs)) maxiter callback tol"
proof -
  let ?bs' = "map (\<lambda>p. [Some (lower_of p), Some (upper_of p)]) bs"
  note a = parse_bounds_pairs [OF assms]
  have "length ?bs' = length c" "\<forall>p \<in> set ?bs'. length p = 2" using assms by auto
  from parse_bounds_pairs [OF this(1) assms(2) this(2)]
  have b: "parse_bounds (length c) (Some ?bs') =
           Inr (Vector (map lower_of bs), Vector (map upper_of bs), 0, [])"
    by (simp add: o_def lower_of_def upper_of_def)
  have "standardize c A_ub b_ub A_eq b_eq (Some bs) =
        standardize c A_ub b_ub A_eq b_eq (Some ?bs')"
    unfolding standardize_def Let_def a b ..
  then have "linprog_simplex c A_ub b_ub A_eq b_eq (Some bs) maxiter callback tol =
         linprog_simplex c A_ub b_ub A_eq b_eq (Some ?bs') maxiter callback tol"
    by (simp add: linprog_simplex_def)
  with a show ?thesis by simp
qed

theorem none_is_infinity_for_two_or_more_witness:
  "length [[None, None], [Some (Fin 0), None]] = length [1, 2 :: rat] \<and>
   2 \<le> length [1, 2 :: rat] \<and>
   parse_bounds (length [1, 2 :: rat]) (Some [[None, None], [Some (Fin 0), None]]) =
     Inr (Vector [MInf, Fin 0], Vector [PInf, PInf], 0, []) \<and>
   linprog_simplex [1, 2] None None None None (Some [[None, None], [Some (Fin 0), None]])
     1000 False (1 / 10 ^ 12) =
   linprog_simplex [1, 2] None None None None
     (Some [[Some MInf, Some PInf], [Some (Fin 0), Some PInf]]) 1000 False (1 / 10 ^ 12)"
proof -
  have h: "length [[None, None], [Some (Fin 0), None]] = length [1, 2 :: rat]"
    "2 \<le> length [1, 2 :: rat]"
    "\<forall>p \<in> set [[None, None], [Some (Fin 0), None]]. length p = 2"
    by simp_all
  from none_is_infinity_for_two_or_more [OF h, of None None None None 1000 False "1 / 10 ^ 12"]
  show ?thesis using h(1,2) by (simp add: lower_of_def upper_of_def)
qed

text \<open>
  The example of the docstring of \<^verbatim>\<open>_linprog_simplex\<close>: the solver reaches the minimum
  -22 at x = (10, -3) after 5 iterations and returns it with status 3, since the first
  column of the final tableau has no positive entry.
\<close>

theorem docstring_example_reported_unbounded:
  "linprog_simplex [- 1, 4] (Some \<lparr>ncols = 2, rows = [[- 3, 1], [1, 2]]\<rparr>) (Some [6, 4])
       None None (Some [[Some MInf, Some PInf], [Some (Fin (- 3)), Some PInf]]) 1000 False
       (1 / 10 ^ 12) =
     Inr (Finished,
          \<lparr>r_x = [10, - 3], r_fun = - 22, r_nit = 5, r_status = 3,
            r_message = ''Optimization failed. The problem appears to be unbounded.'',
            r_success = False\<rparr>,
          [])"
  by code_simp
text \<open>
  The first pass of the engine, started with an iteration count of at most \<open>2 ^ n\<close> and
  without an observer. If the entering column chosen by \<^verbatim>\<open>argmin\<close> has no positive
  entry above the objective rows, the engine returns status 3 with the tableau
  unchanged, whatever the objective row is; if it has one and every coefficient of the
  objective row is at least \<open>-tol\<close>, the engine returns status 0 with the tableau
  unchanged.
\<close>

theorem unbounded_exit_precedes_optimality_test:
  assumes "nit0 < maxiter" "nit0 \<le> 2 ^ n" "T \<noteq> []"
    and "argmin (butlast (last T)) = Inr pivcol"
  shows "(ratio_rows T phase pivcol = [] \<longrightarrow>
            (\<forall>out. lpsimplex T n n_slack n_artificial maxiter phase False tol nit0 = Inr out
               \<longrightarrow> o_status out = 3 \<and> o_nit out = nit0 \<and> o_tableau out = T)) \<and>
         (ratio_rows T phase pivcol \<noteq> [] \<and> (\<forall>a \<in> set (butlast (last T)). - tol \<le> a) \<longrightarrow>
            (\<forall>out. lpsimplex T n n_slack n_artificial maxiter phase False tol nit0 = Inr out
               \<longrightarrow> o_status out = 0 \<and> o_nit out = nit0 \<and> o_tableau out = T))"
proof (rule conjI; intro impI allI)
  define s0 where
    "s0 = \<lparr>s_tableau = T, s_nit = nit0, s_status = None, s_cycle = 0, s_calls = []\<rparr>"
  have c: "s_nit s0 < maxiter" "s_status s0 = None" using assms(1) by (simp_all add: s0_def)
  {
    fix out
    assume e: "ratio_rows T phase pivcol = []"
      and o: "lpsimplex T n n_slack n_artificial maxiter phase False tol nit0 = Inr out"
    have b: "lp_body n phase False [] tol T s0 =
               Inr (True, s0\<lparr>s_status := Some 3, s_cycle := 0\<rparr>)"
      using assms e by (simp add: lp_body_def s0_def)
    from lp_loop_break [OF c b]
    have l: "lp_loop n phase False [] tol T maxiter s0 =
               Inr (s0\<lparr>s_status := Some 3, s_cycle := 0\<rparr>, 3,
                    ''Optimization failed. The problem appears to be unbounded.'')" .
    from o show "o_status out = 3 \<and> o_nit out = nit0 \<and> o_tableau out = T"
      unfolding lpsimplex_def Let_def
      by (auto simp: l [unfolded s0_def] split: sum.splits)
  }
  {
    fix out
    assume e: "ratio_rows T phase pivcol \<noteq> [] \<and> (\<forall>a \<in> set (butlast (last T)). - tol \<le> a)"
      and o: "lpsimplex T n n_slack n_artificial maxiter phase False tol nit0 = Inr out"
    define s1 where
      "s1 = \<lparr>s_tableau = T, s_nit = nit0, s_status = Some 0, s_cycle = 0, s_calls = []\<rparr>"
    have b: "lp_body n phase False [] tol T s0 = Inr (False, s1)"
      using assms e by (simp add: lp_body_def s0_def s1_def callback_step_def)
    have "\<not> (s_nit s1 < maxiter \<and> s_status s1 = None)" by (simp add: s1_def)
    from lp_loop_stop [OF this, of n phase False "[]" tol T] assms(1)
    have "lp_loop n phase False [] tol T maxiter s1 =
            Inr (s1, 0, ''Optimization terminated successfully.'')"
      by (simp add: s1_def)
    with lp_loop_continue [OF c b]
    have l: "lp_loop n phase False [] tol T maxiter s0 =
            Inr (s1, 0, ''Optimization terminated successfully.'')" by simp
    from o show "o_status out = 0 \<and> o_nit out = nit0 \<and> o_tableau out = T"
      unfolding lpsimplex_def Let_def
      by (auto simp: l [unfolded s0_def s1_def] split: sum.splits)
  }
qed

theorem unbounded_exit_precedes_optimality_test_witness:
  "(0 :: int) < 1000 \<and> (0 :: int) \<le> 2 ^ 1 \<and> [[- 1, 1], [0, 0 :: rat]] \<noteq> [] \<and>
   argmin (butlast (last [[- 1, 1], [0, 0 :: rat]])) = Inr 0 \<and>
   ratio_rows [[- 1, 1], [0, 0]] 2 0 = [] \<and>
   (\<exists>out. lpsimplex [[- 1, 1], [0, 0]] 1 0 0 1000 2 False (1 / 10 ^ 12) 0 = Inr out \<and>
          o_status out = 3 \<and> o_nit out = 0 \<and> o_tableau out = [[- 1, 1], [0, 0]])"
proof -
  have h: "(0 :: int) < 1000" "(0 :: int) \<le> 2 ^ 1" "[[- 1, 1], [0, 0 :: rat]] \<noteq> []"
    by simp_all
  have a: "argmin (butlast (last [[- 1, 1], [0, 0 :: rat]])) = Inr 0" by code_simp
  have r: "ratio_rows [[- 1, 1], [0, 0]] 2 0 = []" by code_simp
  have e: "lpsimplex [[- 1, 1], [0, 0]] 1 0 0 1000 2 False (1 / 10 ^ 12) 0 =
     Inr \<lparr>o_x = [0], o_nit = 0, o_status = 3,
          o_message = ''Optimization failed. The problem appears to be unbounded.'',
          o_tableau = [[- 1, 1], [0, 0]], o_calls = []\<rparr>"
    by code_simp
  from unbounded_exit_precedes_optimality_test
         [OF h a, of 2 0 0 "1 / 10 ^ 12", THEN conjunct1, rule_format, OF r e]
  have "o_status \<lparr>o_x = [0], o_nit = 0, o_status = 3,
          o_message = ''Optimization failed. The problem appears to be unbounded.'',
          o_tableau = [[- 1, 1], [0, 0 :: rat]], o_calls = []\<rparr> = 3" by simp
  with h a r e show ?thesis by simp
qed

text \<open>
  The handler of lines 321 to 328 leaves the loop before the observer call of line 346.
  A phase 2 run that applies one pivot and then finds the entering column without a
  positive entry has called the observer once, in the pass of the pivot.
\<close>

lemma unbounded_exit_precedes_observer_call:
  "map_sum id (\<lambda>out. (o_status out, o_nit out, map p_iter (o_calls out),
                      map p_complete (o_calls out)))
     (lpsimplex [[1, - 1, 1], [- 1, - 1, 0]] 2 0 0 1000 2 True (1 / 10 ^ 12) 0) =
   Inr (3, 1, [0], [False])"
  by code_simp

end
